theory Spec2Isabelle
  imports Complex_Main "HOL-Library.Char_ord" "HOL-Library.List_Lexorder"
begin

unbundle bit_operations_syntax

section \<open>JavaScript strings\<close>

text \<open>
  A JavaScript string is modelled as a \<^typ>\<open>string\<close>: a list of characters, each a code
  unit below 256 read as a Latin-1 code point. All text the functions below inspect
  character by character (white space, ASCII letters, digits, the apostrophe) lies in that
  range; code units from 256 on are outside the model.
\<close>

definition isSpace :: "char \<Rightarrow> bool" where
  \<comment> \<open>the characters of the regular expression class \<open>\s\<close>, which are also the ones
      \<open>String.prototype.trim\<close> removes: TAB, LF, VT, FF, CR, SPACE, NBSP\<close>
  "isSpace c = (of_char c \<in> {9, 10, 11, 12, 13, 32, 160 :: nat})"

definition lowerChar :: "char \<Rightarrow> char" where
  \<comment> \<open>\<open>toLowerCase\<close> on one Latin-1 character: A-Z, and the accented capitals
      0xC0-0xDE without the multiplication sign 0xD7, move up by 32\<close>
  "lowerChar c =
     (let n = (of_char c :: nat)
      in if (65 \<le> n \<and> n \<le> 90) \<or> (192 \<le> n \<and> n \<le> 222 \<and> n \<noteq> 215)
         then char_of (n + 32) else c)"

definition toLowerCase :: "string \<Rightarrow> string" where
  "toLowerCase s = map lowerChar s"

definition trim :: "string \<Rightarrow> string" where
  "trim s = rev (dropWhile isSpace (rev (dropWhile isSpace s)))"

definition startsWith :: "string \<Rightarrow> string \<Rightarrow> bool" where
  \<comment> \<open>\<open>hay.startsWith(needle)\<close>\<close>
  "startsWith hay needle = (take (length needle) hay = needle)"

fun str_includes :: "string \<Rightarrow> string \<Rightarrow> bool" where
  \<comment> \<open>\<open>hay.includes(needle)\<close>: the needle starts at some position of the hay\<close>
  "str_includes [] needle = (needle = [])"
| "str_includes (c # cs) needle = (startsWith (c # cs) needle \<or> str_includes cs needle)"

fun split_space :: "string \<Rightarrow> string list" where
  \<comment> \<open>\<open>value.split(' ')\<close>: never the empty array, \<open>''.split(' ')\<close> is \<open>['']\<close>\<close>
  "split_space [] = [[]]"
| "split_space (c # cs) =
     (if c = CHR '' '' then [] # split_space cs
      else (case split_space cs of w # ws \<Rightarrow> (c # w) # ws | [] \<Rightarrow> [[c]]))"

fun join_space :: "string list \<Rightarrow> string" where
  \<comment> \<open>\<open>words.join(' ')\<close>\<close>
  "join_space [] = []"
| "join_space [w] = w"
| "join_space (w # v # ws) = w @ CHR '' '' # join_space (v # ws)"

section \<open>The transcript merge engine\<close>

text \<open>
  The repository holds two copies of the merge module. The one in
  \<^verbatim>\<open>src/unnamed/part_001\<close> has the substring rules and the restart heuristic; the one
  in \<^verbatim>\<open>src/lib/transcript-merge.ts\<close> is the same text without them. The helper
  functions they share are identical in both files and are modelled once.
\<close>

definition FINAL_REPLACE_MIN_WORDS :: nat where
  "FINAL_REPLACE_MIN_WORDS = 5"

definition isTokenChar :: "char \<Rightarrow> bool" where
  \<comment> \<open>the class \<open>[a-z0-9']\<close>\<close>
  "isTokenChar c =
     (let n = (of_char c :: nat)
      in (97 \<le> n \<and> n \<le> 122) \<or> (48 \<le> n \<and> n \<le> 57) \<or> n = 39)"

definition normalizeToken :: "string \<Rightarrow> string" where
  \<comment> \<open>the replace deletes the leading and the trailing run of non-token characters;
      \<open>stripped || lowered\<close> falls back to \<open>lowered\<close> when nothing is left\<close>
  "normalizeToken v =
     (let lowered = toLowerCase v;
          stripped = rev (dropWhile (\<lambda>c. \<not> isTokenChar c)
                       (rev (dropWhile (\<lambda>c. \<not> isTokenChar c) lowered)))
      in if stripped \<noteq> [] then stripped else lowered)"

definition word_at :: "string list \<Rightarrow> nat \<Rightarrow> string" where
  \<comment> \<open>\<open>words[i] ?? ''\<close>\<close>
  "word_at ws i = (if i < length ws then ws ! i else [])"

function tokens_match :: "string list \<Rightarrow> string list \<Rightarrow> nat \<Rightarrow> nat \<Rightarrow> bool" where
  \<comment> \<open>the inner loop of \<open>findWordOverlap\<close>, from \<open>index\<close> on: the value of
      \<open>matched\<close> when the loop ends\<close>
  "tokens_match previousWords nextWords overlap index =
     (if index < overlap then
        (let previousToken =
               normalizeToken (word_at previousWords (length previousWords - overlap + index));
             nextToken = normalizeToken (word_at nextWords index)
         in if previousToken = [] \<or> nextToken = [] \<or> previousToken \<noteq> nextToken
            then False
            else tokens_match previousWords nextWords overlap (index + 1))
      else True)"
  by pat_completeness auto
termination
  by (relation "measure (\<lambda>(p, n, overlap, index). overlap - index)") auto

fun overlap_from :: "string list \<Rightarrow> string list \<Rightarrow> nat \<Rightarrow> nat" where
  \<comment> \<open>the outer loop of \<open>findWordOverlap\<close>, counting \<open>overlap\<close> down to 1\<close>
  "overlap_from previousWords nextWords 0 = 0"
| "overlap_from previousWords nextWords (Suc k) =
     (if tokens_match previousWords nextWords (Suc k) 0 then Suc k
      else overlap_from previousWords nextWords k)"

definition findWordOverlap :: "string list \<Rightarrow> string list \<Rightarrow> nat" where
  "findWordOverlap previousWords nextWords =
     overlap_from previousWords nextWords (min (length previousWords) (length nextWords))"

fun collapse_from :: "string \<Rightarrow> string list \<Rightarrow> string list" where
  \<comment> \<open>the loop of \<open>collapseDuplicateWords\<close>; the first argument is \<open>previousToken\<close>\<close>
  "collapse_from previousToken [] = []"
| "collapse_from previousToken (w # ws) =
     (let token = normalizeToken w
      in if token \<noteq> [] \<and> token = previousToken then collapse_from previousToken ws
         else w # collapse_from token ws)"

definition collapseDuplicateWords :: "string list \<Rightarrow> string list" where
  "collapseDuplicateWords ws = collapse_from [] ws"

definition tokenize :: "string \<Rightarrow> string list" where
  "tokenize v = filter (\<lambda>t. t \<noteq> []) (map normalizeToken (split_space v))"

fun countPrefixTokenMatches :: "string list \<Rightarrow> string list \<Rightarrow> nat" where
  "countPrefixTokenMatches (p # ps) (n # ns) =
     (if p \<noteq> n then 0 else 1 + countPrefixTokenMatches ps ns)"
| "countPrefixTokenMatches _ _ = 0"

definition floor_70_percent :: "nat \<Rightarrow> nat" where
  \<comment> \<open>\<open>Math.floor(n * 0.7)\<close> in exact arithmetic, which is not what the source computes
      everywhere: the double product can round just below a whole number (\<open>90 * 0.7\<close> is
      \<open>62.99999999999999\<close>, floored to 62 where this function gives 63). The verdict of
      \<open>looksLikeRestart\<close> does not depend on the bound at all, see
      \<open>restart_verdict_bound_irrelevant\<close>, so nothing below rests on this function.\<close>
  "floor_70_percent n = (7 * n) div 10"

definition restart_verdict :: "(nat \<Rightarrow> nat) \<Rightarrow> string list \<Rightarrow> string list \<Rightarrow> bool" where
  \<comment> \<open>the body of \<open>looksLikeRestart\<close> on the two token lists, with the function that
      stands for \<open>Math.floor(n * 0.7)\<close> as its first argument\<close>
  "restart_verdict bound previousTokens nextTokens =
     (if length previousTokens = 0 \<or> length nextTokens = 0 then False
      else let prefixMatches = countPrefixTokenMatches previousTokens nextTokens
           in if prefixMatches \<ge> 2 then True
              else if prefixMatches \<ge> 1 \<and> length nextTokens \<ge> 4 then True
              else if hd previousTokens = hd nextTokens
                      \<and> length nextTokens \<ge> max 4 (bound (length previousTokens))
                   then True
              else False)"

definition looksLikeRestart :: "string \<Rightarrow> string \<Rightarrow> bool" where
  "looksLikeRestart previousText nextText =
     restart_verdict floor_70_percent (tokenize previousText) (tokenize nextText)"

definition shouldReplaceWithFinal :: "string list \<Rightarrow> string list \<Rightarrow> bool" where
  "shouldReplaceWithFinal previousWords nextWords =
     (if length nextWords < FINAL_REPLACE_MIN_WORDS then False
      else length nextWords \<ge> length previousWords)"

function collapse_ws :: "string \<Rightarrow> string" where
  \<comment> \<open>\<open>value.replace(/\s+/g, ' ')\<close>: every maximal run of white space becomes one space\<close>
  "collapse_ws [] = []"
| "collapse_ws (c # cs) =
     (if isSpace c then CHR '' '' # collapse_ws (dropWhile isSpace cs)
      else c # collapse_ws cs)"
  by pat_completeness auto
termination
  by (relation "measure length") (auto simp: length_dropWhile_le less_Suc_eq_le)

definition normalizeTranscriptText :: "string \<Rightarrow> string" where
  "normalizeTranscriptText v = trim (collapse_ws v)"

definition mergeIncrementalTranscriptText :: "string \<Rightarrow> string \<Rightarrow> bool \<Rightarrow> string" where
  \<comment> \<open>\<^verbatim>\<open>src/unnamed/part_001\<close>; the third argument is \<open>options.isFinal\<close>, false when
      absent\<close>
  "mergeIncrementalTranscriptText previousText nextText isFinal =
     (let previous = normalizeTranscriptText previousText;
          next = normalizeTranscriptText nextText
      in if previous = [] then next
         else if next = [] then previous
         else let previousLower = toLowerCase previous;
                  nextLower = toLowerCase next
              in if previousLower = nextLower then previous
                 else if startsWith nextLower previousLower then next
                 else if str_includes nextLower previousLower then next
                 else if startsWith previousLower nextLower then previous
                 else if str_includes previousLower nextLower then previous
                 else let previousWords = split_space previous;
                          nextWords = split_space next;
                          overlap = findWordOverlap previousWords nextWords
                      in if overlap > 0
                         then join_space (collapseDuplicateWords
                                (previousWords @ drop overlap nextWords))
                         else if looksLikeRestart previous next then next
                         else if isFinal \<and> shouldReplaceWithFinal previousWords nextWords
                         then next
                         else join_space (collapseDuplicateWords
                                (previousWords @ nextWords)))"

definition mergeIncrementalTranscriptText_lib :: "string \<Rightarrow> string \<Rightarrow> bool \<Rightarrow> string" where
  \<comment> \<open>\<^verbatim>\<open>src/lib/transcript-merge.ts\<close>: no substring rule, no restart rule\<close>
  "mergeIncrementalTranscriptText_lib previousText nextText isFinal =
     (let previous = normalizeTranscriptText previousText;
          next = normalizeTranscriptText nextText
      in if previous = [] then next
         else if next = [] then previous
         else let previousLower = toLowerCase previous;
                  nextLower = toLowerCase next
              in if previousLower = nextLower then previous
                 else if startsWith nextLower previousLower then next
                 else if startsWith previousLower nextLower then previous
                 else let previousWords = split_space previous;
                          nextWords = split_space next;
                          overlap = findWordOverlap previousWords nextWords
                      in if overlap > 0
                         then join_space (collapseDuplicateWords
                                (previousWords @ drop overlap nextWords))
                         else if isFinal \<and> shouldReplaceWithFinal previousWords nextWords
                         then next
                         else join_space (collapseDuplicateWords
                                (previousWords @ nextWords)))"


subsection \<open>The restart rule in the words of the specification\<close>

definition first_token_matches :: "string list \<Rightarrow> string list \<Rightarrow> bool" where
  "first_token_matches previousTokens nextTokens =
     (previousTokens \<noteq> [] \<and> nextTokens \<noteq> [] \<and> hd nextTokens = hd previousTokens)"

definition judged_restart :: "string list \<Rightarrow> string list \<Rightarrow> bool" where
  \<comment> \<open>"its first two tokens exactly match previous's first two tokens, or its first token
      matches and next has at least 4 tokens, or its first token matches and next's token
      count is at least max(4, 0.7 x previous's token count)"\<close>
  "judged_restart previousTokens nextTokens =
     ((length previousTokens \<ge> 2 \<and> length nextTokens \<ge> 2
          \<and> take 2 nextTokens = take 2 previousTokens)
      \<or> (first_token_matches previousTokens nextTokens \<and> length nextTokens \<ge> 4)
      \<or> (first_token_matches previousTokens nextTokens
          \<and> length nextTokens \<ge> 4 \<and> 10 * length nextTokens \<ge> 7 * length previousTokens))"

subsection \<open>Shapes of normalized text\<close>

fun single_spaced :: "string \<Rightarrow> bool" where
  \<comment> \<open>every white-space character is a space and is followed by a character that is not
      white space, if by any\<close>
  "single_spaced [] = True"
| "single_spaced [c] = (isSpace c \<longrightarrow> c = CHR '' '')"
| "single_spaced (c # d # cs) =
     ((isSpace c \<longrightarrow> c = CHR '' '' \<and> \<not> isSpace d) \<and> single_spaced (d # cs))"

definition well_spaced :: "string \<Rightarrow> bool" where
  \<comment> \<open>no leading or trailing white space, no two white-space characters in a row, and no
      white space other than the space character\<close>
  "well_spaced s =
     ((s \<noteq> [] \<longrightarrow> \<not> isSpace (hd s) \<and> \<not> isSpace (last s))
      \<and> (\<forall>i < length s - 1. \<not> (isSpace (s ! i) \<and> isSpace (s ! Suc i)))
      \<and> (\<forall>c \<in> set s. isSpace c \<longrightarrow> c = CHR '' ''))"

definition wordy :: "string list \<Rightarrow> bool" where
  \<comment> \<open>a non-empty list of non-empty words free of white space\<close>
  "wordy ws = (ws \<noteq> [] \<and> (\<forall>w \<in> set ws. w \<noteq> [] \<and> (\<forall>c \<in> set w. \<not> isSpace c)))"


section \<open>The event normalizer\<close>

text \<open>
  Built-ins of the JavaScript runtime that the webhook module calls are parameters of the
  model; \<open>Date.now()\<close> is an explicit clock reading.
\<close>

datatype json =
    JNull | JBool bool | JNumber rat | JString string
  | JArray "json list" | JObject "(string \<times> json) list"

record builtins =
  json_parse :: "string \<Rightarrow> json option"
    \<comment> \<open>\<open>JSON.parse\<close>; \<open>None\<close> when it throws\<close>
  to_number :: "string \<Rightarrow> rat option"
    \<comment> \<open>\<open>Number(value)\<close> when \<open>Number.isFinite\<close> holds of it, else \<open>None\<close>\<close>
  date_parse :: "string \<Rightarrow> int option"
    \<comment> \<open>\<open>Date.parse(value)\<close> when finite, else \<open>None\<close>\<close>
  sha1_hex :: "string \<Rightarrow> string"
    \<comment> \<open>\<open>createHash('sha1').update(s).digest('hex')\<close>\<close>
  hmac_sha1_base64 :: "string \<Rightarrow> string \<Rightarrow> string"
    \<comment> \<open>\<open>createHmac('sha1', key).update(payload).digest('base64')\<close>\<close>

type_synonym TwilioWebhookParams = "(string \<times> string) list"
  \<comment> \<open>a \<open>Record<string, string>\<close> as its list of entries; \<open>params[key]\<close> is
      \<open>map_of params key\<close>\<close>

datatype TranscriptSpeaker = Caller | Other | Unknown

record Transcript =
  tr_text :: string
  tr_speaker :: TranscriptSpeaker
  tr_isFinal :: bool
  tr_timestamp :: int
  tr_sourceEventId :: string

record ParsedTwilioWebhookEvent =
  ev_callSid :: "string option"
  ev_accountSid :: "string option"
  ev_slug :: "string option"
  ev_status :: "string option"
  ev_transcript :: "Transcript option"

record TranscriptionData =
  td_text :: "string option"
  td_isFinal :: "bool option"
  td_speakerHint :: "string option"
  td_timestampHint :: "string option"
  td_sourceHint :: "string option"

definition truthy :: "string option \<Rightarrow> bool" where
  \<comment> \<open>a \<open>string | null\<close> is falsy when it is \<open>null\<close> or empty\<close>
  "truthy v = (case v of None \<Rightarrow> False | Some s \<Rightarrow> s \<noteq> [])"

definition or_else :: "string option \<Rightarrow> string option \<Rightarrow> string option" where
  \<comment> \<open>\<open>a || b\<close>\<close>
  "or_else a b = (if truthy a then a else b)"

fun readString :: "TwilioWebhookParams \<Rightarrow> string list \<Rightarrow> string option" where
  "readString params [] = None"
| "readString params (key # keys) =
     (case map_of params key of
        Some v \<Rightarrow> (let trimmed = trim v
                   in if trimmed \<noteq> [] then Some trimmed else readString params keys)
      | None \<Rightarrow> readString params keys)"

definition asRecord :: "json option \<Rightarrow> (string \<times> json) list option" where
  \<comment> \<open>the argument is \<open>None\<close> for \<open>undefined\<close>; only a JSON object passes\<close>
  "asRecord v = (case v of Some (JObject entries) \<Rightarrow> Some entries | _ \<Rightarrow> None)"

fun readStringFromEntries :: "(string \<times> json) list \<Rightarrow> string list \<Rightarrow> string option" where
  "readStringFromEntries entries [] = None"
| "readStringFromEntries entries (key # keys) =
     (case map_of entries key of
        Some (JString v) \<Rightarrow> (let trimmed = trim v
                   in if trimmed \<noteq> [] then Some trimmed else readStringFromEntries entries keys)
      | _ \<Rightarrow> readStringFromEntries entries keys)"

definition readStringFromRecord :: "(string \<times> json) list option \<Rightarrow> string list \<Rightarrow> string option" where
  "readStringFromRecord rec keys =
     (case rec of None \<Rightarrow> None | Some entries \<Rightarrow> readStringFromEntries entries keys)"

definition readBoolean :: "string option \<Rightarrow> bool option" where
  "readBoolean v =
     (if \<not> truthy v then None
      else let normalized = toLowerCase (the v)
           in if normalized \<in> set [''1'', ''true'', ''yes'', ''y''] then Some True
              else if normalized \<in> set [''0'', ''false'', ''no'', ''n''] then Some False
              else None)"

definition js_round :: "rat \<Rightarrow> int" where
  \<comment> \<open>\<open>Math.round\<close>: to the nearest integer, halves upwards\<close>
  "js_round x = \<lfloor>x + 1 / 2\<rfloor>"

definition parseTimestamp :: "builtins \<Rightarrow> int \<Rightarrow> string option \<Rightarrow> int" where
  \<comment> \<open>the second argument is what \<open>Date.now()\<close> returns. The product
      \<open>asNumber * 1000\<close> is exact here and a rounded double in the source, so the two can
      differ by one millisecond on a fractional number of seconds; no theorem below depends
      on a timestamp read from such a field.\<close>
  "parseTimestamp js now v =
     (if \<not> truthy v then now
      else let fromDate = (case date_parse js (the v) of Some asDate \<Rightarrow> asDate | None \<Rightarrow> now)
           in case to_number js (the v) of
                Some asNumber \<Rightarrow>
                  if asNumber > 1000000000000 then js_round asNumber
                  else if asNumber > 1000000000 then js_round (asNumber * 1000)
                  else fromDate
              | None \<Rightarrow> fromDate)"

definition parseSpeaker :: "string option \<Rightarrow> TranscriptSpeaker" where
  "parseSpeaker track =
     (if \<not> truthy track then Unknown
      else let normalized = toLowerCase (the track)
           in if str_includes normalized ''caller'' \<or> str_includes normalized ''customer''
                 \<or> str_includes normalized ''inbound'' then Caller
              else if str_includes normalized ''outbound'' \<or> str_includes normalized ''callee''
                 \<or> str_includes normalized ''agent'' \<or> str_includes normalized ''recipient''
                 \<or> str_includes normalized ''other'' then Other
              else Unknown)"

definition noTranscriptionData :: TranscriptionData where
  "noTranscriptionData =
     \<lparr>td_text = None, td_isFinal = None, td_speakerHint = None, td_timestampHint = None,
      td_sourceHint = None\<rparr>"

definition parseTranscriptionData :: "builtins \<Rightarrow> string option \<Rightarrow> TranscriptionData" where
  "parseTranscriptionData js rawData =
     (if \<not> truthy rawData then noTranscriptionData
      else case json_parse js (the rawData) of
        None \<Rightarrow> noTranscriptionData
      | Some parsed \<Rightarrow>
          (let rec = asRecord (Some parsed);
               segment = (case rec of
                            None \<Rightarrow> None
                          | Some entries \<Rightarrow>
                              (case map_of entries ''segments'' of
                                 Some (JArray items) \<Rightarrow>
                                   asRecord (case items of [] \<Rightarrow> None | item # _ \<Rightarrow> Some item)
                               | _ \<Rightarrow> None));
               finalRaw = or_else (readStringFromRecord rec [''isFinal'', ''final''])
                                  (readStringFromRecord segment [''isFinal'', ''final''])
           in \<lparr>td_text = or_else (readStringFromRecord rec [''transcript'', ''text''])
                               (readStringFromRecord segment [''transcript'', ''text'']),
               td_isFinal = readBoolean finalRaw,
               td_speakerHint =
                 or_else (readStringFromRecord rec [''track'', ''channel'', ''speaker'', ''role''])
                         (readStringFromRecord segment [''track'', ''channel'', ''speaker'', ''role'']),
               td_timestampHint =
                 or_else (readStringFromRecord rec [''timestamp'', ''time'', ''createdAt''])
                         (readStringFromRecord segment [''timestamp'', ''time'', ''createdAt'']),
               td_sourceHint =
                 or_else (readStringFromRecord rec [''id'', ''segmentId'', ''sequence''])
                         (readStringFromRecord segment [''id'', ''segmentId'', ''sequence''])\<rparr>))"

fun join_with :: "string \<Rightarrow> string list \<Rightarrow> string" where
  \<comment> \<open>\<open>items.join(sep)\<close>\<close>
  "join_with sep [] = []"
| "join_with sep [w] = w"
| "join_with sep (w # v # ws) = w @ sep @ join_with sep (v # ws)"

definition digit_char :: "nat \<Rightarrow> char" where
  "digit_char d = char_of (48 + d)"

fun show_nat :: "nat \<Rightarrow> string" where
  "show_nat n = (if n < 10 then [digit_char n] else show_nat (n div 10) @ [digit_char (n mod 10)])"

definition show_int :: "int \<Rightarrow> string" where
  \<comment> \<open>an integral number in a template literal, as all its decimal digits: what JavaScript
      prints for an integer up to \<open>2^53\<close> in size, which covers every clock reading.
      Beyond that JavaScript prints the shortest digits that round-trip, and exponent form
      from \<open>10^21\<close> on; such timestamps are outside the model.\<close>
  "show_int i = (if i < 0 then CHR ''-'' # show_nat (nat (- i)) else show_nat (nat i))"

definition speaker_name :: "TranscriptSpeaker \<Rightarrow> string" where
  "speaker_name s = (case s of Caller \<Rightarrow> ''caller'' | Other \<Rightarrow> ''other'' | Unknown \<Rightarrow> ''unknown'')"

definition primaryId :: "string option \<Rightarrow> string option \<Rightarrow> string option \<Rightarrow> string option
    \<Rightarrow> int \<Rightarrow> TranscriptSpeaker \<Rightarrow> string" where
  \<comment> \<open>the \<open>||\<close> chain at the head of \<open>buildSourceEventId\<close>\<close>
  "primaryId transcriptionSid sequenceId segmentSid sourceHint timestamp speaker =
     (if truthy segmentSid then the segmentSid
      else if truthy sourceHint then the sourceHint
      else let composite = join_with '':'' (map the (filter truthy [transcriptionSid, sequenceId]))
           in if composite \<noteq> [] then composite
              else show_int timestamp @ '':'' @ speaker_name speaker)"

definition buildSourceEventId :: "builtins \<Rightarrow> string \<Rightarrow> string option \<Rightarrow> string option
    \<Rightarrow> string option \<Rightarrow> string option \<Rightarrow> int \<Rightarrow> TranscriptSpeaker \<Rightarrow> string \<Rightarrow> string" where
  "buildSourceEventId js callSid transcriptionSid sequenceId segmentSid sourceHint timestamp
       speaker text =
     sha1_hex js (join_with ''|''
       [callSid,
        primaryId transcriptionSid sequenceId segmentSid sourceHint timestamp speaker,
        toLowerCase (trim text)])"

definition matches_final_event :: "string \<Rightarrow> bool" where
  \<comment> \<open>\<open>/(final|complete|stopped)/i.test(eventName)\<close>\<close>
  "matches_final_event eventName =
     (let lowered = toLowerCase eventName
      in str_includes lowered ''final'' \<or> str_includes lowered ''complete''
         \<or> str_includes lowered ''stopped'')"

definition parseTwilioWebhookEvent ::
    "builtins \<Rightarrow> int \<Rightarrow> TwilioWebhookParams \<Rightarrow> string option \<Rightarrow> ParsedTwilioWebhookEvent" where
  \<comment> \<open>the second argument is the clock reading \<open>parseTimestamp\<close> falls back to\<close>
  "parseTwilioWebhookEvent js now bodyParams slugFromQuery =
     (let callSid = readString bodyParams [''CallSid''];
          accountSid = readString bodyParams [''AccountSid''];
          status = readString bodyParams [''CallStatus''];
          slug = (case slugFromQuery of Some s \<Rightarrow> Some s
                  | None \<Rightarrow> readString bodyParams [''slug'', ''Slug'']);
          transcriptionData =
            parseTranscriptionData js (readString bodyParams [''TranscriptionData'']);
          transcriptText =
            or_else (readString bodyParams
                       [''TranscriptionText'', ''Transcript'', ''SpeechResult'',
                        ''UnstableSpeechResult''])
                    (td_text transcriptionData)
      in if \<not> truthy callSid \<or> \<not> truthy transcriptText
         then \<lparr>ev_callSid = callSid, ev_accountSid = accountSid, ev_slug = slug,
               ev_status = status, ev_transcript = None\<rparr>
         else
           (let eventName = readString bodyParams
                              [''TranscriptionEvent'', ''EventType'', ''SpeechEventType''];
                explicitFinal = readBoolean (readString bodyParams [''IsFinal'', ''Final'']);
                isFinal = (case explicitFinal of
                             Some b \<Rightarrow> b
                           | None \<Rightarrow>
                               (case td_isFinal transcriptionData of
                                  Some b \<Rightarrow> b
                                | None \<Rightarrow> truthy eventName \<and> matches_final_event (the eventName)));
                speakerHint =
                  or_else (readString bodyParams
                             [''Track'', ''track'', ''Channel'', ''ChannelName'',
                              ''ParticipantRole'', ''ParticipantLabel''])
                          (td_speakerHint transcriptionData);
                speaker = parseSpeaker speakerHint;
                timestamp = parseTimestamp js now
                  (or_else (readString bodyParams
                              [''Timestamp'', ''Time'', ''SequenceStartTime'',
                               ''TranscriptionTimestamp'', ''DateCreated''])
                           (td_timestampHint transcriptionData));
                sourceEventId = buildSourceEventId js (the callSid)
                  (readString bodyParams [''TranscriptionSid'', ''TranscriptionSessionSid''])
                  (readString bodyParams [''SequenceId'', ''ResultIndex'', ''SegmentIndex''])
                  (readString bodyParams [''TranscriptionSegmentSid'', ''SegmentSid''])
                  (td_sourceHint transcriptionData)
                  timestamp speaker (the transcriptText)
            in \<lparr>ev_callSid = callSid, ev_accountSid = accountSid, ev_slug = slug,
                ev_status = status,
                ev_transcript = Some \<lparr>tr_text = the transcriptText, tr_speaker = speaker,
                  tr_isFinal = isFinal, tr_timestamp = timestamp,
                  tr_sourceEventId = sourceEventId\<rparr>\<rparr>))"

subsection \<open>SHA-1 as Node computes it\<close>

text \<open>
  \<open>createHash('sha1')\<close> is the SHA-1 of FIPS 180-4 over the UTF-8 bytes of the string.
  It is written out here so that two idempotency keys can be compared by evaluation; a
  32-bit word is an \<^typ>\<open>int\<close> kept below \<open>2^32\<close>.
\<close>

definition utf8_char :: "char \<Rightarrow> int list" where
  "utf8_char c =
     (let n = (of_char c :: int)
      in if n < 128 then [n] else [192 + n div 64, 128 + n mod 64])"

definition utf8 :: "string \<Rightarrow> int list" where
  \<comment> \<open>\<open>Buffer.from(s)\<close>\<close>
  "utf8 s = concat (map utf8_char s)"

definition w32 :: "int \<Rightarrow> int" where
  "w32 x = x mod 4294967296"

definition rotl32 :: "nat \<Rightarrow> int \<Rightarrow> int" where
  "rotl32 k x = w32 (x * 2 ^ k) + x div 2 ^ (32 - k)"

definition sha1_f :: "nat \<Rightarrow> int \<Rightarrow> int \<Rightarrow> int \<Rightarrow> int" where
  "sha1_f t b c d =
     (if t < 20 then (b AND c) OR ((b XOR 4294967295) AND d)
      else if t < 40 then b XOR c XOR d
      else if t < 60 then (b AND c) OR (b AND d) OR (c AND d)
      else b XOR c XOR d)"

definition sha1_k :: "nat \<Rightarrow> int" where
  "sha1_k t = (if t < 20 then 0x5A827999 else if t < 40 then 0x6ED9EBA1
               else if t < 60 then 0x8F1BBCDC else 0xCA62C1D6)"

fun sha1_round :: "(int \<times> int \<times> int \<times> int \<times> int) \<times> int list \<Rightarrow> nat
     \<Rightarrow> (int \<times> int \<times> int \<times> int \<times> int) \<times> int list" where
  \<comment> \<open>round \<open>t\<close>; the list holds the sixteen schedule words \<open>W t .. W (t + 15)\<close>\<close>
  "sha1_round ((a, b, c, d, e), win) t =
     ((w32 (rotl32 5 a + sha1_f t b c d + e + sha1_k t + hd win), a, rotl32 30 b, c, d),
      tl win @ [rotl32 1 (win ! 13 XOR win ! 8 XOR win ! 2 XOR win ! 0)])"

fun be_words :: "int list \<Rightarrow> int list" where
  "be_words (b0 # b1 # b2 # b3 # bs) = (((b0 * 256 + b1) * 256 + b2) * 256 + b3) # be_words bs"
| "be_words _ = []"

fun sha1_block :: "int \<times> int \<times> int \<times> int \<times> int \<Rightarrow> int list
     \<Rightarrow> int \<times> int \<times> int \<times> int \<times> int" where
  "sha1_block (h0, h1, h2, h3, h4) block =
     (case fst (foldl sha1_round ((h0, h1, h2, h3, h4), be_words block) [0..<80]) of
        (a, b, c, d, e) \<Rightarrow>
          (w32 (h0 + a), w32 (h1 + b), w32 (h2 + c), w32 (h3 + d), w32 (h4 + e)))"

fun be_bytes :: "nat \<Rightarrow> int \<Rightarrow> int list" where
  \<comment> \<open>the low \<open>n\<close> bytes, most significant first\<close>
  "be_bytes 0 x = []"
| "be_bytes (Suc n) x = be_bytes n (x div 256) @ [x mod 256]"

definition sha1_pad :: "int list \<Rightarrow> int list" where
  "sha1_pad m = m @ [128] @ replicate ((119 - length m mod 64) mod 64) 0
                  @ be_bytes 8 (8 * int (length m))"

fun sha1_blocks :: "nat \<Rightarrow> int \<times> int \<times> int \<times> int \<times> int \<Rightarrow> int list
     \<Rightarrow> int \<times> int \<times> int \<times> int \<times> int" where
  "sha1_blocks 0 h bs = h"
| "sha1_blocks (Suc n) h bs = sha1_blocks n (sha1_block h (take 64 bs)) (drop 64 bs)"

definition sha1 :: "int list \<Rightarrow> int list" where
  "sha1 m =
     (let p = sha1_pad m
      in case sha1_blocks (length p div 64)
                (0x67452301, 0xEFCDAB89, 0x98BADCFE, 0x10325476, 0xC3D2E1F0) p of
           (h0, h1, h2, h3, h4) \<Rightarrow> concat (map (be_bytes 4) [h0, h1, h2, h3, h4]))"

definition hex_digit :: "int \<Rightarrow> char" where
  "hex_digit d = (if d < 10 then char_of (48 + d) else char_of (87 + d))"

definition hex :: "int list \<Rightarrow> string" where
  "hex bs = concat (map (\<lambda>b. [hex_digit (b div 16), hex_digit (b mod 16)]) bs)"

definition node_sha1_hex :: "string \<Rightarrow> string" where
  "node_sha1_hex s = hex (sha1 (utf8 s))"

section \<open>The webhook authenticator\<close>

datatype js_error = RangeError

definition timingSafeEqual :: "int list \<Rightarrow> int list \<Rightarrow> js_error + bool" where
  \<comment> \<open>\<open>crypto.timingSafeEqual\<close> throws on buffers of different length\<close>
  "timingSafeEqual a b = (if length a \<noteq> length b then Inl RangeError else Inr (a = b))"

definition safeEqual :: "string \<Rightarrow> string \<Rightarrow> js_error + bool" where
  "safeEqual a b =
     (let aBuf = utf8 a; bBuf = utf8 b
      in if length aBuf \<noteq> length bBuf then Inr False else timingSafeEqual aBuf bBuf)"

definition object_keys :: "TwilioWebhookParams \<Rightarrow> string list" where
  \<comment> \<open>\<open>Object.keys(params)\<close>, each key once\<close>
  "object_keys params = remdups (map fst params)"

definition param_value :: "TwilioWebhookParams \<Rightarrow> string \<Rightarrow> string" where
  \<comment> \<open>\<open>params[key]\<close> inside a template literal\<close>
  "param_value params key = (case map_of params key of Some v \<Rightarrow> v | None \<Rightarrow> ''undefined'')"

definition computeTwilioSignature :: "builtins \<Rightarrow> string \<Rightarrow> string \<Rightarrow> TwilioWebhookParams \<Rightarrow> string" where
  "computeTwilioSignature js authToken url params =
     (let sortedKeys = sort (object_keys params);
          payload = foldl (\<lambda>acc key. acc @ key @ param_value params key) url sortedKeys
      in hmac_sha1_base64 js authToken payload)"

fun some_candidate :: "(string \<Rightarrow> js_error + bool) \<Rightarrow> string list \<Rightarrow> js_error + bool" where
  \<comment> \<open>\<open>urlCandidates.some(test)\<close>: stops at the first candidate that passes, and at an
      exception\<close>
  "some_candidate test [] = Inr False"
| "some_candidate test (candidate # rest) =
     (case test candidate of
        Inl e \<Rightarrow> Inl e
      | Inr passed \<Rightarrow> if passed then Inr True else some_candidate test rest)"

definition isValidTwilioSignature ::
    "builtins \<Rightarrow> string \<Rightarrow> string \<Rightarrow> string list \<Rightarrow> TwilioWebhookParams \<Rightarrow> js_error + bool" where
  "isValidTwilioSignature js authToken signature urlCandidates bodyParams =
     some_candidate
       (\<lambda>candidate. safeEqual (computeTwilioSignature js authToken candidate bodyParams) signature)
       urlCandidates"

definition signed_payload :: "string \<Rightarrow> TwilioWebhookParams \<Rightarrow> string" where
  \<comment> \<open>the specification's \<open>url + key1 + value1 + key2 + value2 + ...\<close>, keys in
      lexicographic order\<close>
  "signed_payload url params =
     url @ concat (map (\<lambda>key. key @ param_value params key) (sort (object_keys params)))"

section \<open>The advice scheduler\<close>

text \<open>
  The storage functions, the advice generator and the helpers of \<^verbatim>\<open>live-types\<close> are
  not among the sources; what they return is an input of the model, every call issued to
  them is logged as an \<open>effect\<close>, in order. A \<open>pass\<close> holds what one pass of the
  \<open>while\<close> loop of \<open>runAdviceForCall\<close> observes, in the order of the source: how
  \<open>getLiveCallSummary\<close> settles, the two clock readings of the freshness test, how
  \<open>getTranscriptChunks(callSid, ADVICE_TRANSCRIPT_LIMIT)\<close> settles, how
  \<open>generateLiveAdvice\<close> and the store of its result settle, the clock reading written to
  \<open>lastRunAt\<close>, and whether another trigger for the same call ran while the pass was
  waiting, which sets \<open>pending\<close>. Rejections of \<open>setLiveCallAnalyzing\<close> and of the
  fallback store are swallowed by \<open>.catch\<close> and have no field. When the list of passes
  ends while the loop would go on, the run is \<open>Unfinished\<close>.
\<close>

definition ADVICE_MIN_INTERVAL_MS :: int where
  "ADVICE_MIN_INTERVAL_MS = 900"

definition ADVICE_TRANSCRIPT_LIMIT :: nat where
  "ADVICE_TRANSCRIPT_LIMIT = 40"

record AdviceRunState =
  running :: bool
  pending :: bool
  lastRunAt :: int

type_synonym advice_store = "string \<rightharpoonup> AdviceRunState"
  \<comment> \<open>the process-wide \<open>Map<string, AdviceRunState>\<close>\<close>

datatype 'a settled = Resolved 'a | Rejected string
  \<comment> \<open>how an awaited promise settles; a rejection carries \<open>error.message\<close>, empty when
      the error has none\<close>

record LiveCallSummary =
  sum_slug :: "string option"
  sum_lastAdviceAt :: "int option"

record ('adv, 'chunk) pass =
  p_summary :: "LiveCallSummary option settled"
  p_clock_advice :: int
  p_clock_run :: int
  p_transcript :: "'chunk list settled"
  p_advice :: "'adv settled"
  p_stored :: "unit settled"
  p_clock_done :: int
  p_retriggered :: bool

record 'adv live_types =
  normalizeSessionStatus :: "string \<Rightarrow> string"
  isTerminalStatus :: "string \<Rightarrow> bool"
  createDefaultAdvice :: 'adv

datatype ('adv, 'chunk) effect =
    UpsertSession string string "string option"
  | SetStatus string string "string option"
  | AppendChunk string Transcript
  | SetAnalyzing string bool
  | Generate "'chunk list"
  | SetAdvice string 'adv "string option"

datatype run_end = Returned | Threw string | Unfinished

definition delay_notice :: string where
  "delay_notice = ''Live analysis is delayed. Keep verifying through official channels.''"

definition generation_effects ::
    "'adv live_types \<Rightarrow> string \<Rightarrow> ('adv, 'chunk) pass \<Rightarrow> 'chunk list \<Rightarrow> ('adv, 'chunk) effect list" where
  \<comment> \<open>lines 154 to 165: the calls one generation issues; the inner \<open>catch\<close> covers a
      rejected generation and a rejected store of its result alike\<close>
  "generation_effects lt callSid p transcript =
     [SetAnalyzing callSid True, Generate transcript] @
     (case p_advice p of
        Resolved advice \<Rightarrow>
          SetAdvice callSid advice None #
          (case p_stored p of
             Resolved _ \<Rightarrow> []
           | Rejected _ \<Rightarrow> [SetAdvice callSid (createDefaultAdvice lt) (Some delay_notice)])
      | Rejected _ \<Rightarrow> [SetAdvice callSid (createDefaultAdvice lt) (Some delay_notice)])"

fun advice_loop ::
    "'adv live_types \<Rightarrow> string \<Rightarrow> bool \<Rightarrow> AdviceRunState \<Rightarrow> ('adv, 'chunk) pass list
       \<Rightarrow> run_end \<times> AdviceRunState \<times> ('adv, 'chunk) effect list" where
  \<comment> \<open>the \<open>while\<close> loop, lines 136 to 170; \<open>pending\<close> is cleared at the top of a pass
      and set again by a trigger that arrives during it\<close>
  "advice_loop lt callSid force current [] = (Unfinished, current, [])"
| "advice_loop lt callSid force current (p # ps) =
     (let current = current\<lparr>pending := p_retriggered p\<rparr>
      in case p_summary p of
           Rejected msg \<Rightarrow> (Threw msg, current, [])
         | Resolved None \<Rightarrow> (Returned, current, [])
         | Resolved (Some summary) \<Rightarrow>
             if \<not> force
                \<and> (case sum_lastAdviceAt summary of
                      None \<Rightarrow> False
                    | Some lastAdviceAt \<Rightarrow>
                        lastAdviceAt \<noteq> 0
                        \<and> p_clock_advice p - lastAdviceAt < ADVICE_MIN_INTERVAL_MS)
                \<and> p_clock_run p - lastRunAt current < ADVICE_MIN_INTERVAL_MS
             then (Returned, current, [])
             else
               (case p_transcript p of
                  Rejected msg \<Rightarrow> (Threw msg, current, [])
                | Resolved transcript \<Rightarrow>
                    if length transcript = 0 then (Returned, current, [])
                    else
                      (let effects = generation_effects lt callSid p transcript;
                           current = current\<lparr>lastRunAt := p_clock_done p\<rparr>
                       in if pending current
                          then (case advice_loop lt callSid False current ps of
                                  (ending, final, later) \<Rightarrow> (ending, final, effects @ later))
                          else (Returned, current, effects))))"

definition runAdviceForCall ::
    "'adv live_types \<Rightarrow> advice_store \<Rightarrow> int \<Rightarrow> ('adv, 'chunk) pass list \<Rightarrow> string \<Rightarrow> bool
       \<Rightarrow> run_end \<times> advice_store \<times> ('adv, 'chunk) effect list" where
  "runAdviceForCall lt store now passes callSid force =
     (let current = (case store callSid of
                       Some state \<Rightarrow> state
                     | None \<Rightarrow> \<lparr>running = False, pending = False, lastRunAt = 0\<rparr>);
          store = store(callSid \<mapsto> current)
      in if running current
         then (Returned, store(callSid \<mapsto> current\<lparr>pending := True\<rparr>), [])
         else if \<not> force \<and> now - lastRunAt current < ADVICE_MIN_INTERVAL_MS
         then (Returned, store, [])
         else
           (case advice_loop lt callSid force (current\<lparr>running := True\<rparr>) passes of
              (ending, final, effects) \<Rightarrow>
                (ending,
                 store(callSid \<mapsto> (if ending = Unfinished then final
                                     else final\<lparr>running := False\<rparr>)),
                 effects)))"

section \<open>The webhook handler\<close>

text \<open>
  A \<open>request\<close> holds what \<open>POST\<close> reads from the HTTP request: the signature header, the
  candidate URLs that \<open>buildTwilioUrlCandidates\<close> derives from the URL and the forwarding
  headers, the body parameters, the slug of the query string. A \<open>world\<close> holds what lies
  outside the handler: the configuration, the validation switch, the clock, how each
  storage call settles, and the scheduler's store and passes. \<open>POST\<close> awaits the advice
  run, so it is \<open>Awaiting\<close> while the run is unfinished.
\<close>

record TwilioConfig =
  cfg_accountSid :: string
  cfg_authToken :: string

record request =
  rq_signature :: "string option"
  rq_urlCandidates :: "string list"
  rq_bodyParams :: TwilioWebhookParams
  rq_slug :: "string option"

record response =
  rs_status :: nat
  rs_ok :: bool
  rs_error :: "string option"

record ('adv, 'chunk) world =
  w_twilioConfig :: "TwilioConfig option"
  w_skipValidation :: bool
  w_clock_parse :: int
  w_existing :: "LiveCallSummary option settled"
  w_upsert :: "unit settled"
  w_setStatus :: "unit settled"
  w_append :: "unit settled"
  w_store :: advice_store
  w_clock_trigger :: int
  w_passes :: "('adv, 'chunk) pass list"

datatype post_end = Responded response | Crashed js_error | Awaiting

definition isSlugChar :: "char \<Rightarrow> bool" where
  \<comment> \<open>the class \<open>[a-z0-9-]\<close>\<close>
  "isSlugChar c =
     (let n = (of_char c :: nat)
      in (97 \<le> n \<and> n \<le> 122) \<or> (48 \<le> n \<and> n \<le> 57) \<or> n = 45)"

definition isValidSlug :: "string option \<Rightarrow> bool" where
  "isValidSlug slug =
     (truthy slug \<and> 3 \<le> length (the slug) \<and> length (the slug) \<le> 64
      \<and> list_all isSlugChar (the slug))"

definition ok_response :: response where
  "ok_response = \<lparr>rs_status = 200, rs_ok = True, rs_error = None\<rparr>"

definition error_response :: "nat \<Rightarrow> string \<Rightarrow> response" where
  "error_response code message = \<lparr>rs_status = code, rs_ok = False, rs_error = Some message\<rparr>"

definition failure_message :: "string \<Rightarrow> string" where
  \<comment> \<open>the message of the outer \<open>catch\<close>\<close>
  "failure_message msg = (if msg \<noteq> [] then msg else ''Twilio webhook processing failed.'')"

definition respond_failed ::
    "string \<Rightarrow> advice_store \<Rightarrow> ('adv, 'chunk) effect list
       \<Rightarrow> post_end \<times> advice_store \<times> ('adv, 'chunk) effect list" where
  \<comment> \<open>the outer \<open>catch\<close> of \<open>POST\<close>\<close>
  "respond_failed msg store effects =
     (Responded (error_response 500 (failure_message msg)), store, effects)"

definition trigger_advice ::
    "'adv live_types \<Rightarrow> ('adv, 'chunk) world \<Rightarrow> ParsedTwilioWebhookEvent \<Rightarrow> string
       \<Rightarrow> Transcript \<Rightarrow> ('adv, 'chunk) effect list
       \<Rightarrow> post_end \<times> advice_store \<times> ('adv, 'chunk) effect list" where
  \<comment> \<open>lines 273 to 278, after the chunk is appended; the last argument holds the storage
      calls issued so far\<close>
  "trigger_advice lt w event callSid transcript issued =
     (let normalizedStatus =
            normalizeSessionStatus lt (case ev_status event of None \<Rightarrow> [] | Some s \<Rightarrow> s);
          callEnded = isTerminalStatus lt normalizedStatus
      in case runAdviceForCall lt (w_store w) (w_clock_trigger w) (w_passes w) callSid
                (tr_isFinal transcript \<or> callEnded) of
           (Returned, store, effects) \<Rightarrow> (Responded ok_response, store, issued @ effects)
         | (Threw msg, store, effects) \<Rightarrow> respond_failed msg store (issued @ effects)
         | (Unfinished, store, effects) \<Rightarrow> (Awaiting, store, issued @ effects))"

definition status_update :: "'adv live_types \<Rightarrow> string \<Rightarrow> string \<Rightarrow> ('adv, 'chunk) effect" where
  \<comment> \<open>lines 258 to 260: the \<open>setLiveCallStatus\<close> call for a status text\<close>
  "status_update lt callSid statusText =
     (let status = normalizeSessionStatus lt statusText;
          statusError = (if status = ''failed''
                         then Some (''Call status changed to '' @ statusText @ ''.'')
                         else None)
      in SetStatus callSid status statusError)"

definition record_event ::
    "'adv live_types \<Rightarrow> ('adv, 'chunk) world \<Rightarrow> ParsedTwilioWebhookEvent \<Rightarrow> string \<Rightarrow> string
       \<Rightarrow> post_end \<times> advice_store \<times> ('adv, 'chunk) effect list" where
  \<comment> \<open>lines 251 to 278, once the slug is known\<close>
  "record_event lt w event callSid slug =
     (let upsert = [UpsertSession callSid slug (ev_status event)]
      in case w_upsert w of
           Rejected msg \<Rightarrow> respond_failed msg (w_store w) upsert
         | Resolved _ \<Rightarrow>
             (let written = upsert @ (if truthy (ev_status event)
                                      then [status_update lt callSid (the (ev_status event))]
                                      else [])
              in case (if truthy (ev_status event) then w_setStatus w else Resolved ()) of
                   Rejected msg \<Rightarrow> respond_failed msg (w_store w) written
                 | Resolved _ \<Rightarrow>
                     (case ev_transcript event of
                        None \<Rightarrow> (Responded ok_response, w_store w, written)
                      | Some transcript \<Rightarrow>
                          (case w_append w of
                             Rejected msg \<Rightarrow>
                               respond_failed msg (w_store w)
                                 (written @ [AppendChunk callSid transcript])
                           | Resolved _ \<Rightarrow>
                               trigger_advice lt w event callSid transcript
                                 (written @ [AppendChunk callSid transcript])))))"

definition resolve_slug ::
    "('adv, 'chunk) world \<Rightarrow> ParsedTwilioWebhookEvent \<Rightarrow> string option settled" where
  \<comment> \<open>lines 238 to 242: the slug of the event if valid, else the one of the stored session\<close>
  "resolve_slug w event =
     (if isValidSlug (ev_slug event) then Resolved (ev_slug event)
      else (case w_existing w of
              Rejected msg \<Rightarrow> Rejected msg
            | Resolved existing \<Rightarrow>
                Resolved (case existing of None \<Rightarrow> None | Some s \<Rightarrow> sum_slug s)))"

definition process_event ::
    "'adv live_types \<Rightarrow> ('adv, 'chunk) world \<Rightarrow> ParsedTwilioWebhookEvent \<Rightarrow> string
       \<Rightarrow> post_end \<times> advice_store \<times> ('adv, 'chunk) effect list" where
  \<comment> \<open>the \<open>try\<close> block of \<open>POST\<close> with its \<open>catch\<close>; the last argument is
      \<open>event.callSid\<close>\<close>
  "process_event lt w event callSid =
     (case resolve_slug w event of
        Rejected msg \<Rightarrow> respond_failed msg (w_store w) []
      | Resolved slug \<Rightarrow>
          if \<not> truthy slug
          then (Responded (error_response 400 ''Missing case slug for call session.''),
                w_store w, [])
          else record_event lt w event callSid (the slug))"

definition signature_gate ::
    "builtins \<Rightarrow> ('adv, 'chunk) world \<Rightarrow> request \<Rightarrow> js_error + response option" where
  \<comment> \<open>the block under \<open>if (!skipValidation)\<close>: the response it returns, if any\<close>
  "signature_gate js w rq =
     (case w_twilioConfig w of
        None \<Rightarrow> Inr (Some (error_response 500 ''Twilio server configuration is missing.''))
      | Some twilioConfig \<Rightarrow>
          if \<not> truthy (rq_signature rq)
          then Inr (Some (error_response 401 ''Missing Twilio signature.''))
          else (case isValidTwilioSignature js (cfg_authToken twilioConfig)
                       (the (rq_signature rq)) (rq_urlCandidates rq) (rq_bodyParams rq) of
                  Inl e \<Rightarrow> Inl e
                | Inr validSignature \<Rightarrow>
                    if \<not> validSignature
                    then Inr (Some (error_response 401 ''Invalid Twilio signature.''))
                    else Inr None))"

definition account_mismatch :: "TwilioConfig option \<Rightarrow> ParsedTwilioWebhookEvent \<Rightarrow> bool" where
  "account_mismatch twilioConfig event =
     (case twilioConfig of
        None \<Rightarrow> False
      | Some config \<Rightarrow>
          truthy (ev_accountSid event) \<and> the (ev_accountSid event) \<noteq> cfg_accountSid config)"

definition POST ::
    "builtins \<Rightarrow> 'adv live_types \<Rightarrow> ('adv, 'chunk) world \<Rightarrow> request
       \<Rightarrow> post_end \<times> advice_store \<times> ('adv, 'chunk) effect list" where
  "POST js lt w rq =
     (if w_twilioConfig w = None \<and> \<not> w_skipValidation w
      then (Responded (error_response 500 ''Twilio server configuration is missing.''),
            w_store w, [])
      else case (if \<not> w_skipValidation w then signature_gate js w rq else Inr None) of
             Inl e \<Rightarrow> (Crashed e, w_store w, [])
           | Inr (Some rejected) \<Rightarrow> (Responded rejected, w_store w, [])
           | Inr None \<Rightarrow>
               (let event = parseTwilioWebhookEvent js (w_clock_parse w) (rq_bodyParams rq)
                              (rq_slug rq)
                in if \<not> truthy (ev_callSid event)
                   then (Responded ok_response, w_store w, [])
                   else if account_mismatch (w_twilioConfig w) event
                   then (Responded (error_response 401 ''Twilio account mismatch.''),
                         w_store w, [])
                   else process_event lt w event (the (ev_callSid event))))"

definition is_rejected :: "'a settled \<Rightarrow> bool" where
  "is_rejected s = (case s of Rejected _ \<Rightarrow> True | Resolved _ \<Rightarrow> False)"

definition clock_free_timestamp :: "builtins \<Rightarrow> string option \<Rightarrow> bool" where
  \<comment> \<open>the timestamp field is present and \<open>parseTimestamp\<close> reads it without the clock\<close>
  "clock_free_timestamp js v =
     (truthy v
      \<and> ((case to_number js (the v) of Some asNumber \<Rightarrow> asNumber > 1000000000 | None \<Rightarrow> False)
         \<or> date_parse js (the v) \<noteq> None))"

definition generates :: "bool \<Rightarrow> int \<Rightarrow> ('adv, 'chunk) pass \<Rightarrow> bool" where
  \<comment> \<open>a pass of the loop in \<open>runAdviceForCall\<close>, entered with the given \<open>force\<close> and
      \<open>current.lastRunAt\<close>, gets as far as calling \<open>generateLiveAdvice\<close>\<close>
  "generates force lastRun p =
     (case p_summary p of
        Resolved (Some summary) \<Rightarrow>
          \<not> (\<not> force
             \<and> (case sum_lastAdviceAt summary of
                   None \<Rightarrow> False
                 | Some lastAdviceAt \<Rightarrow>
                     lastAdviceAt \<noteq> 0
                     \<and> p_clock_advice p - lastAdviceAt < ADVICE_MIN_INTERVAL_MS)
             \<and> p_clock_run p - lastRun < ADVICE_MIN_INTERVAL_MS)
          \<and> (case p_transcript p of
                Resolved transcript \<Rightarrow> transcript \<noteq> []
              | Rejected _ \<Rightarrow> False)
      | _ \<Rightarrow> False)"

fun reaches :: "bool \<Rightarrow> int \<Rightarrow> ('adv, 'chunk) pass list \<Rightarrow> bool" where
  \<comment> \<open>the loop runs through all these passes and goes on: each one generates and sees
      another trigger arrive\<close>
  "reaches force lastRun [] = True"
| "reaches force lastRun (q # qs) =
     (generates force lastRun q \<and> p_retriggered q \<and> reaches False (p_clock_done q) qs)"

definition force_after :: "bool \<Rightarrow> ('adv, 'chunk) pass list \<Rightarrow> bool" where
  \<comment> \<open>the value of \<open>force\<close> after these passes\<close>
  "force_after force before = (before = [] \<and> force)"

definition lastRun_after :: "int \<Rightarrow> ('adv, 'chunk) pass list \<Rightarrow> int" where
  \<comment> \<open>the value of \<open>current.lastRunAt\<close> after these passes\<close>
  "lastRun_after lastRun before = (if before = [] then lastRun else p_clock_done (last before))"

section \<open>Sample inputs\<close>

text \<open>Concrete collaborators and requests at which the theorems below are instantiated.\<close>

definition ragged_previous :: string where
  \<comment> \<open>leading, doubled and trailing spaces and a trailing tab\<close>
  "ragged_previous = ''  This is   urgent '' @ [CHR 0x09]"

definition ragged_next :: string where
  "ragged_next = '' urgent  and you'' @ [CHR 0x09] @ ''must pay  ''"

definition sample_builtins :: builtins where
  \<comment> \<open>the real SHA-1; a stand-in for the keyed hash; no JSON, number or date is parsed in
      the samples\<close>
  "sample_builtins =
     \<lparr>json_parse = (\<lambda>_. None), to_number = (\<lambda>_. None), date_parse = (\<lambda>_. None),
      sha1_hex = node_sha1_hex, hmac_sha1_base64 = (\<lambda>key payload. key @ ''/'' @ payload)\<rparr>"

definition sample_types :: "string live_types" where
  "sample_types =
     \<lparr>normalizeSessionStatus = (\<lambda>s. s), isTerminalStatus = (\<lambda>s. s = ''ended''),
      createDefaultAdvice = ''default advice''\<rparr>"

definition sample_pass :: "(string, string) pass" where
  \<comment> \<open>a pass whose generation is rejected\<close>
  "sample_pass =
     \<lparr>p_summary = Resolved (Some \<lparr>sum_slug = Some ''case-7'', sum_lastAdviceAt = None\<rparr>),
      p_clock_advice = 5000, p_clock_run = 5000,
      p_transcript = Resolved [''buy gift cards now''],
      p_advice = Rejected ''model timeout'', p_stored = Resolved (),
      p_clock_done = 5400, p_retriggered = False\<rparr>"

definition sample_first_pass :: "(string, string) pass" where
  \<comment> \<open>a pass whose generation succeeds while another trigger arrives\<close>
  "sample_first_pass =
     \<lparr>p_summary = Resolved (Some \<lparr>sum_slug = Some ''case-7'', sum_lastAdviceAt = None\<rparr>),
      p_clock_advice = 3000, p_clock_run = 3000,
      p_transcript = Resolved [''buy gift cards''],
      p_advice = Resolved ''high risk'', p_stored = Resolved (),
      p_clock_done = 3200, p_retriggered = True\<rparr>"

definition sample_world :: "(string, string) world" where
  \<comment> \<open>signature validation is switched off; every storage call succeeds\<close>
  "sample_world =
     \<lparr>w_twilioConfig = Some \<lparr>cfg_accountSid = ''AC1'', cfg_authToken = ''secret''\<rparr>,
      w_skipValidation = True, w_clock_parse = 1767225600000,
      w_existing = Resolved None, w_upsert = Resolved (), w_setStatus = Resolved (),
      w_append = Resolved (), w_store = Map.empty, w_clock_trigger = 1767225600000,
      w_passes = []\<rparr>"

definition status_request :: request where
  \<comment> \<open>a status callback for a call, with the case slug in the query string\<close>
  "status_request =
     \<lparr>rq_signature = None, rq_urlCandidates = [''https://example.org/api/twilio/webhook''],
      rq_bodyParams = [(''AccountSid'', ''AC1''), (''CallSid'', ''CA1''),
                       (''CallStatus'', ''in-progress'')],
      rq_slug = Some ''case-7''\<rparr>"

definition bare_transcript_params :: TwilioWebhookParams where
  \<comment> \<open>a transcript callback with no segment id, no session or sequence id and no
      timestamp\<close>
  "bare_transcript_params = [(''CallSid'', ''CA1''), (''TranscriptionText'', ''hello'')]"

definition sequenced_transcript_params :: TwilioWebhookParams where
  "sequenced_transcript_params =
     [(''CallSid'', ''CA1''), (''TranscriptionSid'', ''TR-1''), (''SequenceId'', ''1''),
      (''TranscriptionText'', ''hello'')]"

declare show_nat.simps [simp del]

section \<open>Properties of the merge engine\<close>

subsection \<open>Normalization\<close>

text \<open>The definitions unfolded to evaluate the text functions at concrete strings.\<close>

lemmas eval_text = normalizeTranscriptText_def trim_def isSpace_def toLowerCase_def lowerChar_def
  char_of_def bit_Suc_0_iff startsWith_def normalizeToken_def isTokenChar_def

lemma isSpace_space [simp]: "isSpace (CHR '' '')"
  by (simp add: isSpace_def)

lemma collapse_ws_hd: "collapse_ws x \<noteq> [] \<Longrightarrow> isSpace (hd (collapse_ws x)) \<Longrightarrow> isSpace (hd x)"
  by (cases x) (auto split: if_splits)

lemma collapse_ws_Nil_iff [simp]: "collapse_ws x = [] \<longleftrightarrow> x = []"
  by (cases x) auto

lemma single_spaced_Cons:
  "single_spaced (c # r) \<longleftrightarrow>
     (isSpace c \<longrightarrow> c = CHR '' '' \<and> (r \<noteq> [] \<longrightarrow> \<not> isSpace (hd r))) \<and> single_spaced r"
  by (cases r) auto

lemma single_spaced_collapse_ws: "single_spaced (collapse_ws v)"
proof (induction v rule: collapse_ws.induct)
  case 1
  show ?case by simp
next
  case (2 c cs)
  show ?case
  proof (cases "isSpace c")
    case True
    let ?r = "dropWhile isSpace cs"
    have "?r \<noteq> [] \<Longrightarrow> \<not> isSpace (hd ?r)"
      using hd_dropWhile by blast
    then have "collapse_ws ?r \<noteq> [] \<Longrightarrow> \<not> isSpace (hd (collapse_ws ?r))"
      using collapse_ws_hd by fastforce
    with 2 True show ?thesis
      by (simp add: single_spaced_Cons)
  next
    case False
    with 2 show ?thesis
      by (simp add: single_spaced_Cons)
  qed
qed

lemma collapse_ws_single_spaced: "single_spaced s \<Longrightarrow> collapse_ws s = s"
  by (induction s rule: single_spaced.induct) auto

lemma single_spaced_append_left: "single_spaced (xs @ ys) \<Longrightarrow> single_spaced xs"
  by (induction xs rule: single_spaced.induct) (auto simp: single_spaced_Cons)

lemma single_spaced_dropWhile: "single_spaced s \<Longrightarrow> single_spaced (dropWhile P s)"
  by (induction s) (auto simp: single_spaced_Cons)

lemma trim_prefix: "dropWhile isSpace s = trim s @ rev (takeWhile isSpace (rev (dropWhile isSpace s)))"
  by (simp add: trim_def flip: rev_append)

lemma single_spaced_trim: "single_spaced s \<Longrightarrow> single_spaced (trim s)"
  using single_spaced_dropWhile [of s isSpace] single_spaced_append_left trim_prefix
  by metis

lemma trim_hd: "trim s \<noteq> [] \<Longrightarrow> \<not> isSpace (hd (trim s))"
proof -
  assume ne: "trim s \<noteq> []"
  have "hd (dropWhile isSpace s) = hd (trim s)"
    using trim_prefix [of s] ne by (metis hd_append2)
  moreover have "dropWhile isSpace s \<noteq> []"
    using trim_prefix [of s] ne by (metis append_is_Nil_conv)
  ultimately show ?thesis
    using hd_dropWhile by metis
qed

lemma trim_last: "trim s \<noteq> [] \<Longrightarrow> \<not> isSpace (last (trim s))"
proof -
  assume ne: "trim s \<noteq> []"
  then have "dropWhile isSpace (rev (dropWhile isSpace s)) \<noteq> []"
    by (simp add: trim_def)
  then have "\<not> isSpace (hd (dropWhile isSpace (rev (dropWhile isSpace s))))"
    using hd_dropWhile by blast
  then show ?thesis
    using ne by (simp add: trim_def last_rev)
qed

lemma trim_id: "s \<noteq> [] \<Longrightarrow> \<not> isSpace (hd s) \<Longrightarrow> \<not> isSpace (last s) \<Longrightarrow> trim s = s"
proof -
  assume a: "s \<noteq> []" "\<not> isSpace (hd s)" "\<not> isSpace (last s)"
  then have "dropWhile isSpace s = s"
    by (cases s) auto
  moreover have "dropWhile isSpace (rev s) = rev s"
    using a by (cases "rev s") (auto simp: hd_rev)
  ultimately show ?thesis
    by (simp add: trim_def)
qed

lemma trim_Nil [simp]: "trim [] = []"
  by (simp add: trim_def)

lemma trim_trim: "trim (trim s) = trim s"
  by (cases "trim s = []") (auto simp: trim_id trim_hd trim_last)

lemma normalize_idem:
  "normalizeTranscriptText (normalizeTranscriptText v) = normalizeTranscriptText v"
proof -
  have "single_spaced (trim (collapse_ws v))"
    by (simp add: single_spaced_trim single_spaced_collapse_ws)
  then have "collapse_ws (trim (collapse_ws v)) = trim (collapse_ws v)"
    by (rule collapse_ws_single_spaced)
  then show ?thesis
    by (simp add: normalizeTranscriptText_def trim_trim)
qed

lemma join_space_Cons: "join_space (w # ws) = (if ws = [] then w else w @ CHR '' '' # join_space ws)"
  by (cases ws) auto

lemma join_space_Nil_iff: "wordy ws \<Longrightarrow> join_space ws \<noteq> []"
  by (cases ws) (auto simp: wordy_def join_space_Cons)

lemma wordy_Cons: "wordy (w # ws) \<longleftrightarrow> w \<noteq> [] \<and> (\<forall>c \<in> set w. \<not> isSpace c) \<and> (ws = [] \<or> wordy ws)"
  by (auto simp: wordy_def)

lemma join_space_hd: "wordy ws \<Longrightarrow> \<not> isSpace (hd (join_space ws))"
  by (cases ws) (auto simp: wordy_def join_space_Cons)

lemma join_space_last: "wordy ws \<Longrightarrow> \<not> isSpace (last (join_space ws))"
proof (induction ws)
  case Nil
  then show ?case by (simp add: wordy_def)
next
  case (Cons w ws)
  show ?case
  proof (cases "ws = []")
    case True
    with Cons.prems show ?thesis by (simp add: wordy_Cons)
  next
    case False
    with Cons.prems have w: "wordy ws" by (simp add: wordy_Cons)
    with Cons.IH False join_space_Nil_iff [OF w] show ?thesis
      by (simp add: join_space_Cons)
  qed
qed

lemma single_spaced_word_append:
  "\<forall>c \<in> set w. \<not> isSpace c \<Longrightarrow> single_spaced r \<Longrightarrow> single_spaced (w @ r)"
  by (induction w) (auto simp: single_spaced_Cons)

lemma single_spaced_join: "wordy ws \<Longrightarrow> single_spaced (join_space ws)"
proof (induction ws)
  case Nil
  then show ?case by simp
next
  case (Cons w ws)
  show ?case
  proof (cases "ws = []")
    case True
    with Cons.prems single_spaced_word_append [of w "[]"] show ?thesis
      by (simp add: wordy_Cons)
  next
    case False
    with Cons.prems have w: "wordy ws" by (simp add: wordy_Cons)
    have "single_spaced (CHR '' '' # join_space ws)"
      using Cons.IH [OF w] join_space_hd [OF w] by (simp add: single_spaced_Cons)
    with Cons.prems False show ?thesis
      by (simp add: join_space_Cons wordy_Cons single_spaced_word_append)
  qed
qed

lemma normalize_join: "wordy ws \<Longrightarrow> normalizeTranscriptText (join_space ws) = join_space ws"
  by (simp add: normalizeTranscriptText_def collapse_ws_single_spaced single_spaced_join
      trim_id join_space_Nil_iff join_space_hd join_space_last)

lemma split_space_not_Nil [simp]: "split_space s \<noteq> []"
  by (induction s) (auto split: list.splits)

lemma split_space_shape:
  "single_spaced s \<Longrightarrow> s \<noteq> [] \<Longrightarrow> \<not> isSpace (last s) \<Longrightarrow>
     (hd (split_space s) = [] \<longleftrightarrow> isSpace (hd s)) \<and> [] \<notin> set (tl (split_space s))
     \<and> (\<forall>w \<in> set (split_space s). \<forall>c \<in> set w. \<not> isSpace c)"
proof (induction s)
  case Nil
  then show ?case by simp
next
  case (Cons c cs)
  show ?case
  proof (cases "cs = []")
    case True
    with Cons.prems have "\<not> isSpace c" by simp
    then have "c \<noteq> CHR '' ''" by auto
    with True \<open>\<not> isSpace c\<close> show ?thesis by simp
  next
    case False
    from Cons.prems have ss: "single_spaced cs" 
      by (simp add: single_spaced_Cons)
    from Cons.prems False have "\<not> isSpace (last cs)" by simp
    with Cons.IH ss False have ih: "(hd (split_space cs) = [] \<longleftrightarrow> isSpace (hd cs))"
        "[] \<notin> set (tl (split_space cs))"
        "\<forall>w \<in> set (split_space cs). \<forall>c \<in> set w. \<not> isSpace c"
      by blast+
    obtain w ws where sp: "split_space cs = w # ws"
      by (cases "split_space cs") auto
    from ih sp have w: "w = [] \<longleftrightarrow> isSpace (hd cs)" "[] \<notin> set ws"
      "\<forall>c \<in> set w. \<not> isSpace c" "\<forall>v \<in> set ws. \<forall>c \<in> set v. \<not> isSpace c"
      by simp_all
    show ?thesis
    proof (cases "c = CHR '' ''")
      case True
      with Cons.prems False have "\<not> isSpace (hd cs)"
        by (simp add: single_spaced_Cons)
      with w have "w \<noteq> []" by simp
      have "split_space (c # cs) = [] # w # ws"
        using True sp by simp
      with w \<open>w \<noteq> []\<close> True show ?thesis by simp
    next
      case nsp: False
      with Cons.prems have nc: "\<not> isSpace c"
        by (auto simp: single_spaced_Cons)
      have "split_space (c # cs) = (c # w) # ws"
        using nsp sp by simp
      with w nc show ?thesis by simp
    qed
  qed
qed

lemma wordy_split_space:
  assumes "single_spaced s" "s \<noteq> []" "\<not> isSpace (hd s)" "\<not> isSpace (last s)"
  shows "wordy (split_space s)"
proof -
  from split_space_shape [OF assms(1,2,4)] assms(3)
  have a: "hd (split_space s) \<noteq> []" "[] \<notin> set (tl (split_space s))"
      "\<forall>w \<in> set (split_space s). \<forall>c \<in> set w. \<not> isSpace c"
    by auto
  obtain w ws where sp: "split_space s = w # ws"
    by (cases "split_space s") auto
  with a show ?thesis
    by (auto simp: wordy_def)
qed

lemma wordy_split_normalize:
  "normalizeTranscriptText v \<noteq> [] \<Longrightarrow> wordy (split_space (normalizeTranscriptText v))"
  unfolding normalizeTranscriptText_def
  by (intro wordy_split_space single_spaced_trim single_spaced_collapse_ws trim_hd trim_last)

lemma set_collapse_from: "set (collapse_from t ws) \<subseteq> set ws"
  by (induction ws arbitrary: t) (auto simp: Let_def)

lemma collapseDuplicateWords_not_Nil: "ws \<noteq> [] \<Longrightarrow> collapseDuplicateWords ws \<noteq> []"
  by (cases ws) (auto simp: collapseDuplicateWords_def Let_def)

lemma wordy_collapse: "wordy ws \<Longrightarrow> wordy (collapseDuplicateWords ws)"
  using set_collapse_from [of "[]" ws] collapseDuplicateWords_not_Nil [of ws]
  by (auto simp: wordy_def collapseDuplicateWords_def)

lemma wordy_append_drop: "wordy ps \<Longrightarrow> wordy ns \<Longrightarrow> wordy (ps @ drop k ns)"
  by (auto simp: wordy_def dest: in_set_dropD)

lemma normalize_stitched:
  "wordy ps \<Longrightarrow> wordy ns \<Longrightarrow>
     normalizeTranscriptText (join_space (collapseDuplicateWords (ps @ drop k ns)))
       = join_space (collapseDuplicateWords (ps @ drop k ns))"
  by (intro normalize_join wordy_collapse wordy_append_drop)

lemma single_spaced_pairs:
  "single_spaced s \<Longrightarrow> i < length s - 1 \<Longrightarrow> \<not> (isSpace (s ! i) \<and> isSpace (s ! Suc i))"
proof (induction s arbitrary: i)
  case Nil
  then show ?case by simp
next
  case (Cons c r)
  then have r: "r \<noteq> []" by auto
  show ?case
  proof (cases i)
    case 0
    with Cons.prems r show ?thesis
      by (auto simp: single_spaced_Cons hd_conv_nth)
  next
    case (Suc j)
    with Cons.prems have "single_spaced r" "j < length r - 1"
      by (auto simp: single_spaced_Cons)
    with Cons.IH Suc show ?thesis by simp
  qed
qed

lemma single_spaced_only_spaces:
  "single_spaced s \<Longrightarrow> c \<in> set s \<Longrightarrow> isSpace c \<Longrightarrow> c = CHR '' ''"
  by (induction s) (auto simp: single_spaced_Cons)

lemma well_spaced_intro:
  "single_spaced s \<Longrightarrow> (s \<noteq> [] \<Longrightarrow> \<not> isSpace (hd s)) \<Longrightarrow> (s \<noteq> [] \<Longrightarrow> \<not> isSpace (last s)) \<Longrightarrow>
     well_spaced s"
  unfolding well_spaced_def
  using single_spaced_pairs single_spaced_only_spaces by blast

lemma well_spaced_normalize: "well_spaced (normalizeTranscriptText v)"
  unfolding normalizeTranscriptText_def
  by (intro well_spaced_intro single_spaced_trim single_spaced_collapse_ws trim_hd trim_last)

lemma well_spaced_join: "wordy ws \<Longrightarrow> well_spaced (join_space ws)"
  by (intro well_spaced_intro single_spaced_join join_space_hd join_space_last)

lemma well_spaced_stitched:
  "wordy ps \<Longrightarrow> wordy ns \<Longrightarrow>
     well_spaced (join_space (collapseDuplicateWords (ps @ drop k ns)))"
  by (intro well_spaced_join wordy_collapse wordy_append_drop)

lemma merge_well_spaced:
  "well_spaced (mergeIncrementalTranscriptText previousText nextText isFinal)
   \<and> well_spaced (mergeIncrementalTranscriptText_lib previousText nextText isFinal)"
proof -
  let ?p = "normalizeTranscriptText previousText" and ?n = "normalizeTranscriptText nextText"
  have st: "?p \<noteq> [] \<Longrightarrow> ?n \<noteq> [] \<Longrightarrow>
      well_spaced (join_space (collapseDuplicateWords
          (split_space ?p @ drop k (split_space ?n))))" for k
    by (intro well_spaced_stitched wordy_split_normalize)
  from st [of 0] have st0: "?p \<noteq> [] \<Longrightarrow> ?n \<noteq> [] \<Longrightarrow>
      well_spaced (join_space (collapseDuplicateWords (split_space ?p @ split_space ?n)))"
    by simp
  show ?thesis
    unfolding mergeIncrementalTranscriptText_def mergeIncrementalTranscriptText_lib_def Let_def
    using st st0 by (simp add: well_spaced_normalize)
qed

lemma merge_fixed_by_normalize:
  "normalizeTranscriptText (mergeIncrementalTranscriptText previousText nextText isFinal)
     = mergeIncrementalTranscriptText previousText nextText isFinal
   \<and> normalizeTranscriptText (mergeIncrementalTranscriptText_lib previousText nextText isFinal)
     = mergeIncrementalTranscriptText_lib previousText nextText isFinal"
proof -
  let ?p = "normalizeTranscriptText previousText" and ?n = "normalizeTranscriptText nextText"
  have st: "?p \<noteq> [] \<Longrightarrow> ?n \<noteq> [] \<Longrightarrow>
      normalizeTranscriptText (join_space (collapseDuplicateWords
          (split_space ?p @ drop k (split_space ?n))))
      = join_space (collapseDuplicateWords (split_space ?p @ drop k (split_space ?n)))" for k
    by (intro normalize_stitched wordy_split_normalize)
  from st [of 0] have st0: "?p \<noteq> [] \<Longrightarrow> ?n \<noteq> [] \<Longrightarrow>
      normalizeTranscriptText (join_space (collapseDuplicateWords
          (split_space ?p @ split_space ?n)))
      = join_space (collapseDuplicateWords (split_space ?p @ split_space ?n))"
    by simp
  show ?thesis
    unfolding mergeIncrementalTranscriptText_def mergeIncrementalTranscriptText_lib_def Let_def
    using st st0 by (simp add: normalize_idem)
qed

text \<open>
  Claim C9. Whatever the two fragments and the finality flag, the merged text is
  whitespace-normalized: it has no leading or trailing white space, no two white-space
  characters in a row and no white space other than single spaces, and
  \<open>normalizeTranscriptText\<close> leaves it unchanged. This holds for both copies of the merge
  function.
\<close>

theorem merge_normalized:
  "normalizeTranscriptText (mergeIncrementalTranscriptText previousText nextText isFinal)
     = mergeIncrementalTranscriptText previousText nextText isFinal
   \<and> well_spaced (mergeIncrementalTranscriptText previousText nextText isFinal)
   \<and> normalizeTranscriptText (mergeIncrementalTranscriptText_lib previousText nextText isFinal)
     = mergeIncrementalTranscriptText_lib previousText nextText isFinal
   \<and> well_spaced (mergeIncrementalTranscriptText_lib previousText nextText isFinal)"
  using merge_fixed_by_normalize [of previousText nextText isFinal]
    merge_well_spaced [of previousText nextText isFinal]
  by blast

text \<open>
  Claim C9 at two fragments with leading, trailing and doubled spaces and a tab, which
  overlap in one word: the merged text starts and ends with a letter, and the space after
  its first word is followed by a letter.
\<close>

theorem merge_normalized_witness:
  "mergeIncrementalTranscriptText ragged_previous ragged_next False
     = ''This is urgent and you must pay''
   \<and> \<not> isSpace (hd (mergeIncrementalTranscriptText ragged_previous ragged_next False))
   \<and> \<not> isSpace (last (mergeIncrementalTranscriptText ragged_previous ragged_next False))
   \<and> isSpace (mergeIncrementalTranscriptText ragged_previous ragged_next False ! 4)
   \<and> \<not> isSpace (mergeIncrementalTranscriptText ragged_previous ragged_next False ! 5)"
proof -
  let ?merged = "mergeIncrementalTranscriptText ragged_previous ragged_next False"
  have n: "normalizeTranscriptText ragged_previous = ''This is urgent''"
      "normalizeTranscriptText ragged_next = ''urgent and you must pay''"
    by (simp_all add: ragged_previous_def ragged_next_def normalizeTranscriptText_def trim_def
        isSpace_def)
  have f: "toLowerCase ''This is urgent'' = ''this is urgent''"
      "toLowerCase ''urgent and you must pay'' = ''urgent and you must pay''"
      "split_space ''This is urgent'' = [''This'', ''is'', ''urgent'']"
      "split_space ''urgent and you must pay'' = [''urgent'', ''and'', ''you'', ''must'', ''pay'']"
    by (simp_all add: eval_text)
  have o: "findWordOverlap [''This'', ''is'', ''urgent'']
             [''urgent'', ''and'', ''you'', ''must'', ''pay''] = 1"
    by (simp add: findWordOverlap_def eval_text word_at_def)
  have c: "collapseDuplicateWords [''This'', ''is'', ''urgent'', ''and'', ''you'', ''must'', ''pay'']
      = [''This'', ''is'', ''urgent'', ''and'', ''you'', ''must'', ''pay'']"
    by (simp add: collapseDuplicateWords_def eval_text)
  have r: "?merged = ''This is urgent and you must pay''"
    by (simp only: mergeIncrementalTranscriptText_def n Let_def)
       (simp add: f o c startsWith_def)
  have len: "length ?merged - 1 = 30" and ne: "?merged \<noteq> []"
    and fifth: "isSpace (?merged ! 4)"
    unfolding r by simp_all
  from merge_normalized [of ragged_previous ragged_next False]
  have "well_spaced ?merged"
    by blast
  then have ends: "\<not> isSpace (hd ?merged)" "\<not> isSpace (last ?merged)"
    and pairs: "\<forall>i < length ?merged - 1. \<not> (isSpace (?merged ! i) \<and> isSpace (?merged ! Suc i))"
    using ne unfolding well_spaced_def by blast+
  from len have "4 < length ?merged - 1"
    by simp
  with pairs have "\<not> (isSpace (?merged ! 4) \<and> isSpace (?merged ! Suc 4))"
    by blast
  with fifth have "\<not> isSpace (?merged ! 5)"
    by simp
  with r ends fifth show ?thesis by blast
qed

subsection \<open>Containment\<close>

lemma normalize_Nil [simp]: "normalizeTranscriptText [] = []"
  by (simp add: normalizeTranscriptText_def)

lemma toLowerCase_Nil_iff [simp]: "toLowerCase s = [] \<longleftrightarrow> s = []"
  by (simp add: toLowerCase_def)

lemma toLowerCase_Nil [simp]: "toLowerCase [] = []"
  by (simp add: toLowerCase_def)

lemma length_toLowerCase [simp]: "length (toLowerCase s) = length s"
  by (simp add: toLowerCase_def)

lemma str_includes_length: "str_includes h n \<Longrightarrow> length n \<le> length h"
proof (induction h)
  case Nil
  then show ?case by simp
next
  case (Cons c cs)
  from Cons.prems consider "startsWith (c # cs) n" | "str_includes cs n" by auto
  then show ?case
  proof cases
    case 1
    then have "length (take (length n) (c # cs)) = length n"
      by (simp only: startsWith_def)
    then show ?thesis by simp
  next
    case 2
    with Cons.IH show ?thesis by simp
  qed
qed

lemma str_includes_same_length: "str_includes h n \<Longrightarrow> length h = length n \<Longrightarrow> h = n"
proof (cases h)
  case Nil
  assume "str_includes h n" with Nil show ?thesis by simp
next
  case (Cons c cs)
  assume a: "str_includes h n" "length h = length n"
  have "\<not> str_includes cs n"
    using str_includes_length [of cs n] a(2) Cons by auto
  with a Cons have "startsWith (c # cs) n" by simp
  with a(2) Cons show ?thesis
    by (simp add: startsWith_def)
qed

lemma startsWith_includes: "startsWith h n \<Longrightarrow> str_includes h n"
  by (cases h) (auto simp: startsWith_def)

lemma str_includes_refl [simp]: "str_includes s s"
  by (cases s) (auto simp: startsWith_def)

lemma str_includes_antisym: "str_includes a b \<Longrightarrow> str_includes b a \<Longrightarrow> a = b"
  using str_includes_length [of a b] str_includes_length [of b a] str_includes_same_length [of a b]
  by simp

lemma str_includes_Nil [simp]: "str_includes h []"
  by (cases h) (auto simp: startsWith_def)

text \<open>
  The containment rules of the copy in \<^verbatim>\<open>src/unnamed/part_001\<close>, which has the
  \<open>includes\<close> tests. Let \<open>previous\<close> and \<open>next\<close> be the whitespace-normalized inputs.
  If \<open>next\<close> contains \<open>previous\<close> as a case-insensitive substring and the two are not
  equal up to case, the merge returns \<open>next\<close>; if \<open>previous\<close> contains \<open>next\<close> as a
  case-insensitive substring, the merge returns \<open>previous\<close>.
\<close>

theorem merge_containment:
  "let previous = normalizeTranscriptText previousText;
       next = normalizeTranscriptText nextText
   in (str_includes (toLowerCase next) (toLowerCase previous)
         \<and> toLowerCase next \<noteq> toLowerCase previous
       \<longrightarrow> mergeIncrementalTranscriptText previousText nextText isFinal = next)
    \<and> (str_includes (toLowerCase previous) (toLowerCase next)
       \<longrightarrow> mergeIncrementalTranscriptText previousText nextText isFinal = previous)"
proof -
  let ?p = "normalizeTranscriptText previousText" and ?n = "normalizeTranscriptText nextText"
  have 1: "mergeIncrementalTranscriptText previousText nextText isFinal = ?n"
    if "str_includes (toLowerCase ?n) (toLowerCase ?p)" "toLowerCase ?n \<noteq> toLowerCase ?p"
  proof -
    from that have "?n \<noteq> []" by (cases "?n = []") auto
    with that show ?thesis
      by (simp add: mergeIncrementalTranscriptText_def Let_def)
  qed
  have 2: "mergeIncrementalTranscriptText previousText nextText isFinal = ?p"
    if inc: "str_includes (toLowerCase ?p) (toLowerCase ?n)"
  proof (cases "toLowerCase ?p = toLowerCase ?n")
    case True
    then have "?p = [] \<longleftrightarrow> ?n = []"
      by (metis toLowerCase_Nil_iff)
    with True show ?thesis
      by (auto simp: mergeIncrementalTranscriptText_def Let_def)
  next
    case False
    with inc have no: "\<not> str_includes (toLowerCase ?n) (toLowerCase ?p)"
      using str_includes_antisym by blast
    then have "\<not> startsWith (toLowerCase ?n) (toLowerCase ?p)"
      using startsWith_includes by blast
    moreover from no have "?p \<noteq> []" by (cases "?p = []") auto
    ultimately show ?thesis
      using inc no False by (simp add: mergeIncrementalTranscriptText_def Let_def)
  qed
  from 1 2 show ?thesis by (simp add: Let_def)
qed

text \<open>
  Both containment rules at concrete fragments, one of them with irregular white space and
  capitals.
\<close>

theorem merge_containment_witness:
  "mergeIncrementalTranscriptText ''your account'' ''I need your account number'' False
     = ''I need your account number''
   \<and> mergeIncrementalTranscriptText ''I need your account number'' ''Your  Account '' True
     = ''I need your account number''"
proof -
  let ?short = "''your account''" and ?long = "''I need your account number''"
    and ?messy = "''Your  Account ''"
  have n1: "normalizeTranscriptText ?short = ''your account''"
    and n2: "normalizeTranscriptText ?long = ''I need your account number''"
    and n3: "normalizeTranscriptText ?messy = ''Your Account''"
    by (simp_all add: normalizeTranscriptText_def trim_def isSpace_def)
  have l1: "toLowerCase ''your account'' = ''your account''"
    and l2: "toLowerCase ''I need your account number'' = ''i need your account number''"
    and l3: "toLowerCase ''Your Account'' = ''your account''"
    by (simp_all add: toLowerCase_def lowerChar_def char_of_def bit_Suc_0_iff)
  have inc: "str_includes ''i need your account number'' ''your account''"
    by (simp add: startsWith_def)
  have h1: "str_includes (toLowerCase (normalizeTranscriptText ?long))
              (toLowerCase (normalizeTranscriptText ?short))"
    and h2: "toLowerCase (normalizeTranscriptText ?long)
              \<noteq> toLowerCase (normalizeTranscriptText ?short)"
    and h3: "str_includes (toLowerCase (normalizeTranscriptText ?long))
              (toLowerCase (normalizeTranscriptText ?messy))"
    using inc by (simp_all only: n1 n2 n3 l1 l2 l3) simp
  from merge_containment [of ?short ?long False, unfolded Let_def] h1 h2
  have "mergeIncrementalTranscriptText ?short ?long False = normalizeTranscriptText ?long"
    by blast
  moreover from merge_containment [of ?long ?messy True, unfolded Let_def] h3
  have "mergeIncrementalTranscriptText ?long ?messy True = normalizeTranscriptText ?long"
    by blast
  ultimately show ?thesis
    by (simp only: n2)
qed

subsection \<open>Identities and the restart rule\<close>

text \<open>
  Claim C8, amended. For every string \<open>x\<close> and either finality flag, merging \<open>x\<close> with
  the empty string (on either side) or with itself returns the whitespace-normalized
  \<open>x\<close>; so it returns \<open>x\<close> itself exactly when \<open>x\<close> is already normalized. This holds
  for both copies of the merge function.
\<close>

theorem merge_identities:
  "mergeIncrementalTranscriptText [] x isFinal = normalizeTranscriptText x
   \<and> mergeIncrementalTranscriptText x [] isFinal = normalizeTranscriptText x
   \<and> mergeIncrementalTranscriptText x x isFinal = normalizeTranscriptText x
   \<and> mergeIncrementalTranscriptText_lib [] x isFinal = normalizeTranscriptText x
   \<and> mergeIncrementalTranscriptText_lib x [] isFinal = normalizeTranscriptText x
   \<and> mergeIncrementalTranscriptText_lib x x isFinal = normalizeTranscriptText x"
  by (simp add: mergeIncrementalTranscriptText_def mergeIncrementalTranscriptText_lib_def Let_def)

text \<open>
  Claim C8 as stated fails on a fragment with a trailing space: none of the three merges
  returns the fragment unchanged.
\<close>

theorem merge_identities_counterexample:
  "mergeIncrementalTranscriptText [] ''gift cards '' False \<noteq> ''gift cards ''
   \<and> mergeIncrementalTranscriptText ''gift cards '' [] False \<noteq> ''gift cards ''
   \<and> mergeIncrementalTranscriptText ''gift cards '' ''gift cards '' False \<noteq> ''gift cards ''"
proof -
  have "normalizeTranscriptText ''gift cards '' = ''gift cards''"
    by (simp add: normalizeTranscriptText_def trim_def isSpace_def)
  then show ?thesis
    by (simp add: mergeIncrementalTranscriptText_def Let_def)
qed

lemma restart_verdict_bound_irrelevant:
  "restart_verdict f previousTokens nextTokens = restart_verdict g previousTokens nextTokens"
proof (cases previousTokens)
  case Nil
  then show ?thesis by (simp add: restart_verdict_def)
next
  case p: (Cons p ps)
  show ?thesis
  proof (cases nextTokens)
    case Nil
    then show ?thesis by (simp add: restart_verdict_def)
  next
    case (Cons n ns)
    with p show ?thesis
      by (auto simp: restart_verdict_def Let_def)
  qed
qed

lemma countPrefix_ge_2:
  "countPrefixTokenMatches ps ns \<ge> 2 \<longleftrightarrow>
     length ps \<ge> 2 \<and> length ns \<ge> 2 \<and> take 2 ns = take 2 ps"
proof (cases ps)
  case Nil
  then show ?thesis by simp
next
  case p: (Cons p ps')
  show ?thesis
  proof (cases ns)
    case Nil
    with p show ?thesis by simp
  next
    case n: (Cons n ns')
    show ?thesis
    proof (cases ps')
      case Nil
      with p n show ?thesis by simp
    next
      case p': (Cons p2 ps'')
      show ?thesis
      proof (cases ns')
        case Nil
        with p n p' show ?thesis by simp
      next
        case (Cons n2 ns'')
        with p n p' show ?thesis by (auto simp: numeral_2_eq_2)
      qed
    qed
  qed
qed

lemma countPrefix_ge_1:
  "countPrefixTokenMatches ps ns \<ge> 1 \<longleftrightarrow> first_token_matches ps ns"
  by (cases ps; cases ns) (auto simp: first_token_matches_def)

lemma judged_restart_iff:
  "judged_restart previousTokens nextTokens
     = restart_verdict floor_70_percent previousTokens nextTokens"
proof -
  have "restart_verdict floor_70_percent previousTokens nextTokens =
      (countPrefixTokenMatches previousTokens nextTokens \<ge> 2
       \<or> (countPrefixTokenMatches previousTokens nextTokens \<ge> 1 \<and> length nextTokens \<ge> 4))"
    by (cases previousTokens; cases nextTokens) (auto simp: restart_verdict_def Let_def)
  then show ?thesis
    unfolding countPrefix_ge_2 countPrefix_ge_1 judged_restart_def by auto
qed

lemma merge_restart_general:
  assumes "\<not> str_includes (toLowerCase (normalizeTranscriptText nextText))
                (toLowerCase (normalizeTranscriptText previousText))"
    and "\<not> str_includes (toLowerCase (normalizeTranscriptText previousText))
                (toLowerCase (normalizeTranscriptText nextText))"
    and "findWordOverlap (split_space (normalizeTranscriptText previousText))
                (split_space (normalizeTranscriptText nextText)) = 0"
    and "judged_restart (tokenize (normalizeTranscriptText previousText))
                (tokenize (normalizeTranscriptText nextText))"
  shows "mergeIncrementalTranscriptText previousText nextText isFinal
           = normalizeTranscriptText nextText"
proof -
  let ?p = "normalizeTranscriptText previousText" and ?n = "normalizeTranscriptText nextText"
  from assms(1) have "?p \<noteq> []" by (cases "?p = []") auto
  moreover from assms(2) have "?n \<noteq> []" by (cases "?n = []") auto
  moreover from assms(1) have "toLowerCase ?p \<noteq> toLowerCase ?n"
    by (metis str_includes_refl)
  moreover from assms(1) have "\<not> startsWith (toLowerCase ?n) (toLowerCase ?p)"
    using startsWith_includes by blast
  moreover from assms(2) have "\<not> startsWith (toLowerCase ?p) (toLowerCase ?n)"
    using startsWith_includes by blast
  moreover from assms(4) have "looksLikeRestart ?p ?n"
    by (simp add: looksLikeRestart_def judged_restart_iff)
  ultimately show ?thesis
    using assms(1,2,3) by (simp add: mergeIncrementalTranscriptText_def Let_def)
qed

lemma example_facts:
  "normalizeTranscriptText ''I need your account number'' = ''I need your account number''"
  "normalizeTranscriptText ''I need your help please'' = ''I need your help please''"
  "normalizeTranscriptText ''I need'' = ''I need''"
  "toLowerCase ''I need your account number'' = ''i need your account number''"
  "toLowerCase ''I need your help please'' = ''i need your help please''"
  "toLowerCase ''I need'' = ''i need''"
  "split_space ''I need your account number'' = [''I'', ''need'', ''your'', ''account'', ''number'']"
  "split_space ''I need your help please'' = [''I'', ''need'', ''your'', ''help'', ''please'']"
  "tokenize ''I need your account number'' = [''i'', ''need'', ''your'', ''account'', ''number'']"
  "tokenize ''I need your help please'' = [''i'', ''need'', ''your'', ''help'', ''please'']"
  "tokenize ''I need'' = [''i'', ''need'']"
  by (simp_all add: eval_text tokenize_def)

lemma example_overlap:
  "findWordOverlap [''I'', ''need'', ''your'', ''account'', ''number'']
      [''I'', ''need'', ''your'', ''help'', ''please''] = 0"
  by (simp add: findWordOverlap_def eval_text word_at_def)

text \<open>
  The restart rule of the copy in \<^verbatim>\<open>src/unnamed/part_001\<close>, the sixth in its
  first-match-wins order. When neither normalized fragment contains the other
  (case-insensitively), the word overlap is 0 and \<open>next\<close> is judged a restart in the
  words of the specification, the merge returns the normalized \<open>next\<close>; in particular it
  returns the second string for "I need your account number" and "I need your help please"
  with \<open>isFinal = false\<close>.
\<close>

theorem merge_restart:
  "(\<not> str_includes (toLowerCase (normalizeTranscriptText nextText))
                (toLowerCase (normalizeTranscriptText previousText))
    \<and> \<not> str_includes (toLowerCase (normalizeTranscriptText previousText))
                (toLowerCase (normalizeTranscriptText nextText))
    \<and> findWordOverlap (split_space (normalizeTranscriptText previousText))
                (split_space (normalizeTranscriptText nextText)) = 0
    \<and> judged_restart (tokenize (normalizeTranscriptText previousText))
                (tokenize (normalizeTranscriptText nextText))
    \<longrightarrow> mergeIncrementalTranscriptText previousText nextText isFinal
           = normalizeTranscriptText nextText)
   \<and> mergeIncrementalTranscriptText ''I need your account number'' ''I need your help please''
         False = ''I need your help please''"
proof -
  have "mergeIncrementalTranscriptText ''I need your account number'' ''I need your help please''
         False = normalizeTranscriptText ''I need your help please''"
    by (rule merge_restart_general)
       (simp_all add: example_facts example_overlap judged_restart_def startsWith_def)
  then show ?thesis
    using merge_restart_general [of nextText previousText isFinal]
    by (simp add: example_facts)
qed

text \<open>
  The restart rule at two fragments that share only their first token, the second with five
  tokens.
\<close>

theorem merge_restart_witness:
  "mergeIncrementalTranscriptText ''call me back'' ''call the bank right now'' True
     = ''call the bank right now''"
proof -
  have n: "normalizeTranscriptText ''call me back'' = ''call me back''"
      "normalizeTranscriptText ''call the bank right now'' = ''call the bank right now''"
    by (simp_all add: normalizeTranscriptText_def trim_def isSpace_def)
  have f: "toLowerCase ''call me back'' = ''call me back''"
      "toLowerCase ''call the bank right now'' = ''call the bank right now''"
      "split_space ''call me back'' = [''call'', ''me'', ''back'']"
      "split_space ''call the bank right now'' = [''call'', ''the'', ''bank'', ''right'', ''now'']"
      "tokenize ''call me back'' = [''call'', ''me'', ''back'']"
      "tokenize ''call the bank right now'' = [''call'', ''the'', ''bank'', ''right'', ''now'']"
    by (simp_all add: eval_text tokenize_def)
  have o: "findWordOverlap [''call'', ''me'', ''back'']
             [''call'', ''the'', ''bank'', ''right'', ''now''] = 0"
    by (simp add: findWordOverlap_def eval_text word_at_def)
  have h: "\<not> str_includes (toLowerCase (normalizeTranscriptText ''call the bank right now''))
                (toLowerCase (normalizeTranscriptText ''call me back''))
    \<and> \<not> str_includes (toLowerCase (normalizeTranscriptText ''call me back''))
                (toLowerCase (normalizeTranscriptText ''call the bank right now''))
    \<and> findWordOverlap (split_space (normalizeTranscriptText ''call me back''))
                (split_space (normalizeTranscriptText ''call the bank right now'')) = 0
    \<and> judged_restart (tokenize (normalizeTranscriptText ''call me back''))
                (tokenize (normalizeTranscriptText ''call the bank right now''))"
    by (simp add: n f o judged_restart_def first_token_matches_def startsWith_def)
  from merge_restart [of "''call the bank right now''" "''call me back''" True] h
  have "mergeIncrementalTranscriptText ''call me back'' ''call the bank right now'' True
     = normalizeTranscriptText ''call the bank right now''"
    by blast
  then show ?thesis
    by (simp only: n)
qed

text \<open>
  The order of the rules: "I need" shares its first two tokens with
  "I need your account number", and rule 4 (\<open>previous\<close> starts with \<open>next\<close>) decides
  before the restart rule is consulted.
\<close>

lemma containment_before_restart:
  "judged_restart (tokenize (normalizeTranscriptText ''I need your account number''))
      (tokenize (normalizeTranscriptText ''I need''))
   \<and> mergeIncrementalTranscriptText ''I need your account number'' ''I need'' False
       = ''I need your account number''"
  by (simp add: example_facts judged_restart_def mergeIncrementalTranscriptText_def Let_def
      startsWith_def)

subsection \<open>The copy without the substring and restart rules\<close>

lemma account_facts:
  "normalizeTranscriptText ''your account'' = ''your account''"
  "toLowerCase ''your account'' = ''your account''"
  "split_space ''your account'' = [''your'', ''account'']"
  "findWordOverlap [''your'', ''account''] [''I'', ''need'', ''your'', ''account'', ''number''] = 0"
  "findWordOverlap [''I'', ''need'', ''your'', ''account'', ''number''] [''your'', ''account''] = 0"
  by (simp_all add: eval_text findWordOverlap_def word_at_def)

text \<open>
  Claim C2 fails on the copy in \<^verbatim>\<open>src/lib/transcript-merge.ts\<close>, which tests
  \<open>startsWith\<close> only. "I need your account number" contains "your account" in its
  middle: with the shorter text as \<open>previous\<close> the claim has the merge return \<open>next\<close>,
  with the shorter text as \<open>next\<close> it has the merge return \<open>previous\<close>. The copy in
  \<^verbatim>\<open>src/unnamed/part_001\<close> returns the longer text both times; the copy in
  \<^verbatim>\<open>lib\<close> falls through to the concatenation both times.
\<close>

theorem lib_merge_misses_containment:
  "str_includes (toLowerCase (normalizeTranscriptText ''I need your account number''))
      (toLowerCase (normalizeTranscriptText ''your account''))
   \<and> toLowerCase (normalizeTranscriptText ''I need your account number'')
       \<noteq> toLowerCase (normalizeTranscriptText ''your account'')
   \<and> mergeIncrementalTranscriptText_lib ''your account'' ''I need your account number'' False
       = ''your account I need your account number''
   \<and> mergeIncrementalTranscriptText_lib ''I need your account number'' ''your account'' False
       = ''I need your account number your account''
   \<and> mergeIncrementalTranscriptText ''your account'' ''I need your account number'' False
       = ''I need your account number''
   \<and> mergeIncrementalTranscriptText ''I need your account number'' ''your account'' False
       = ''I need your account number''"
proof -
  have inc: "str_includes ''i need your account number'' ''your account''"
    by (simp add: startsWith_def)
  have lib1: "mergeIncrementalTranscriptText_lib ''your account'' ''I need your account number''
      False = ''your account I need your account number''"
    by (simp add: mergeIncrementalTranscriptText_lib_def example_facts account_facts Let_def
        startsWith_def collapseDuplicateWords_def eval_text)
  have lib2: "mergeIncrementalTranscriptText_lib ''I need your account number'' ''your account''
      False = ''I need your account number your account''"
    by (simp add: mergeIncrementalTranscriptText_lib_def example_facts account_facts Let_def
        startsWith_def collapseDuplicateWords_def eval_text)
  have new1: "mergeIncrementalTranscriptText ''your account'' ''I need your account number''
      False = ''I need your account number''"
    using inc by (simp add: mergeIncrementalTranscriptText_def example_facts account_facts
        Let_def startsWith_def)
  have new2: "mergeIncrementalTranscriptText ''I need your account number'' ''your account''
      False = ''I need your account number''"
    using inc by (simp add: mergeIncrementalTranscriptText_def example_facts account_facts
        Let_def startsWith_def)
  from inc lib1 lib2 new1 new2 show ?thesis
    by (simp add: example_facts account_facts)
qed

text \<open>
  Claim C1 fails on the copy in \<^verbatim>\<open>src/lib/transcript-merge.ts\<close>, which has no
  restart rule. At the example of the specification no earlier rule applies (neither text
  contains the other, the word overlap is 0) and \<open>next\<close> is judged a restart; the copy in
  \<^verbatim>\<open>src/unnamed/part_001\<close> returns the second string, the copy in \<^verbatim>\<open>lib\<close>
  returns the two strings one after the other.
\<close>

theorem lib_merge_misses_restart:
  "\<not> str_includes (toLowerCase (normalizeTranscriptText ''I need your help please''))
        (toLowerCase (normalizeTranscriptText ''I need your account number''))
   \<and> \<not> str_includes (toLowerCase (normalizeTranscriptText ''I need your account number''))
        (toLowerCase (normalizeTranscriptText ''I need your help please''))
   \<and> findWordOverlap (split_space (normalizeTranscriptText ''I need your account number''))
        (split_space (normalizeTranscriptText ''I need your help please'')) = 0
   \<and> judged_restart (tokenize (normalizeTranscriptText ''I need your account number''))
        (tokenize (normalizeTranscriptText ''I need your help please''))
   \<and> mergeIncrementalTranscriptText_lib ''I need your account number''
        ''I need your help please'' False
       = ''I need your account number I need your help please''
   \<and> mergeIncrementalTranscriptText ''I need your account number''
        ''I need your help please'' False
       = ''I need your help please''"
proof -
  have reached: "\<not> str_includes ''i need your help please'' ''i need your account number''"
      "\<not> str_includes ''i need your account number'' ''i need your help please''"
    by (simp_all add: startsWith_def)
  have judged: "judged_restart [''i'', ''need'', ''your'', ''account'', ''number'']
      [''i'', ''need'', ''your'', ''help'', ''please'']"
    by (simp add: judged_restart_def)
  have lib: "mergeIncrementalTranscriptText_lib ''I need your account number''
        ''I need your help please'' False
       = ''I need your account number I need your help please''"
    by (simp add: mergeIncrementalTranscriptText_lib_def example_facts example_overlap Let_def
        startsWith_def collapseDuplicateWords_def eval_text)
  have new: "mergeIncrementalTranscriptText ''I need your account number''
        ''I need your help please'' False = normalizeTranscriptText ''I need your help please''"
    by (rule merge_restart_general)
       (simp_all only: example_facts example_overlap judged reached simp_thms)
  from lib new show ?thesis
    by (simp only: example_facts example_overlap judged reached simp_thms)
qed

section \<open>Properties of the event normalizer\<close>

lemma sha1_abc:
  "node_sha1_hex ''abc'' = ''a9993e364706816aba3e25717850c26c9cd0d89d''"
  by code_simp

lemma bare_event:
  "ev_transcript (parseTwilioWebhookEvent sample_builtins now bare_transcript_params None)
     = Some \<lparr>tr_text = ''hello'', tr_speaker = Unknown, tr_isFinal = False, tr_timestamp = now,
             tr_sourceEventId =
               node_sha1_hex (''CA1|'' @ show_int now @ '':unknown|hello'')\<rparr>"
  by (simp add: parseTwilioWebhookEvent_def bare_transcript_params_def sample_builtins_def
      trim_def isSpace_def truthy_def or_else_def parseTranscriptionData_def
      noTranscriptionData_def readBoolean_def parseSpeaker_def parseTimestamp_def
      buildSourceEventId_def primaryId_def speaker_name_def toLowerCase_def lowerChar_def
      Let_def)

lemma shown_clocks:
  "show_int 1767225600000 = ''1767225600000''"
  "show_int 1767225600250 = ''1767225600250''"
  by (simp_all add: show_int_def show_nat.simps digit_char_def char_of_def bit_Suc_0_iff)

lemma bare_digests:
  "node_sha1_hex ''CA1|1767225600000:unknown|hello'' = ''0303e6f86cfa25d78a82899629a5472159f73567''"
  "node_sha1_hex ''CA1|1767225600250:unknown|hello'' = ''a328fe63870fbdec3330aad0e0c977ab4cce7577''"
  by code_simp+

text \<open>
  Claim C4 as stated fails. A payload with no segment id, no session or sequence id and no
  timestamp field, normalized twice 250 ms apart, gets two different idempotency keys: the
  key hashes the current clock reading.
\<close>

theorem source_event_id_counterexample:
  "map_option tr_sourceEventId
     (ev_transcript (parseTwilioWebhookEvent sample_builtins 1767225600000
        bare_transcript_params None))
   \<noteq> map_option tr_sourceEventId
     (ev_transcript (parseTwilioWebhookEvent sample_builtins 1767225600250
        bare_transcript_params None))"
  by (simp add: bare_event shown_clocks bare_digests)

lemma join_with_first: "w \<noteq> [] \<Longrightarrow> join_with sep (w # ws) \<noteq> []"
  by (cases ws) auto

lemma composite_not_Nil:
  "truthy a \<or> truthy b \<Longrightarrow> join_with sep (map the (filter truthy [a, b])) \<noteq> []"
  by (auto simp: truthy_def join_with_first split: option.splits)

lemma primaryId_clock_free:
  "truthy segmentSid \<or> truthy sourceHint \<or> truthy transcriptionSid \<or> truthy sequenceId \<Longrightarrow>
     primaryId transcriptionSid sequenceId segmentSid sourceHint t1 speaker
       = primaryId transcriptionSid sequenceId segmentSid sourceHint t2 speaker"
  using composite_not_Nil [of transcriptionSid sequenceId "'':''"]
  by (auto simp: primaryId_def Let_def)

lemma parseTimestamp_clock_free:
  "clock_free_timestamp js v \<Longrightarrow> parseTimestamp js now1 v = parseTimestamp js now2 v"
  by (auto simp: clock_free_timestamp_def parseTimestamp_def Let_def split: option.splits)

text \<open>
  Claim C4, amended. Normalizing the same body parameters and slug at two clock readings
  yields the same \<open>sourceEventId\<close> whenever the payload carries a segment id, an embedded
  source hint, a transcription-session id, a sequence id, or a timestamp field that
  \<open>parseTimestamp\<close> reads without falling back to the clock.
\<close>

theorem source_event_id_stable:
  assumes "truthy (readString bodyParams [''TranscriptionSegmentSid'', ''SegmentSid''])
      \<or> truthy (td_sourceHint
            (parseTranscriptionData js (readString bodyParams [''TranscriptionData''])))
      \<or> truthy (readString bodyParams [''TranscriptionSid'', ''TranscriptionSessionSid''])
      \<or> truthy (readString bodyParams [''SequenceId'', ''ResultIndex'', ''SegmentIndex''])
      \<or> clock_free_timestamp js
            (or_else (readString bodyParams
                        [''Timestamp'', ''Time'', ''SequenceStartTime'',
                         ''TranscriptionTimestamp'', ''DateCreated''])
                     (td_timestampHint
                        (parseTranscriptionData js (readString bodyParams [''TranscriptionData'']))))"
  shows "map_option tr_sourceEventId
           (ev_transcript (parseTwilioWebhookEvent js now1 bodyParams slugFromQuery))
         = map_option tr_sourceEventId
           (ev_transcript (parseTwilioWebhookEvent js now2 bodyParams slugFromQuery))"
proof -
  let ?td = "parseTranscriptionData js (readString bodyParams [''TranscriptionData''])"
  let ?ts = "or_else (readString bodyParams
                        [''Timestamp'', ''Time'', ''SequenceStartTime'',
                         ''TranscriptionTimestamp'', ''DateCreated''])
                     (td_timestampHint ?td)"
  let ?seg = "readString bodyParams [''TranscriptionSegmentSid'', ''SegmentSid'']"
  let ?tsid = "readString bodyParams [''TranscriptionSid'', ''TranscriptionSessionSid'']"
  let ?seq = "readString bodyParams [''SequenceId'', ''ResultIndex'', ''SegmentIndex'']"
  have "primaryId ?tsid ?seq ?seg (td_sourceHint ?td) (parseTimestamp js now1 ?ts) speaker
      = primaryId ?tsid ?seq ?seg (td_sourceHint ?td) (parseTimestamp js now2 ?ts) speaker"
    for speaker
  proof (cases "clock_free_timestamp js ?ts")
    case True
    then show ?thesis
      using parseTimestamp_clock_free [of js ?ts now1 now2] by simp
  next
    case False
    with assms show ?thesis
      by (intro primaryId_clock_free) blast
  qed
  then show ?thesis
    by (simp add: parseTwilioWebhookEvent_def buildSourceEventId_def Let_def)
qed

text \<open>
  The amended claim at the payload of a provider that sends a session and a sequence id,
  as the repository's mock flow does.
\<close>

theorem source_event_id_stable_witness:
  "map_option tr_sourceEventId
     (ev_transcript (parseTwilioWebhookEvent sample_builtins 1767225600000
        sequenced_transcript_params None))
   = map_option tr_sourceEventId
     (ev_transcript (parseTwilioWebhookEvent sample_builtins 1767225600250
        sequenced_transcript_params None))"
proof -
  have "truthy (readString sequenced_transcript_params
                  [''TranscriptionSid'', ''TranscriptionSessionSid''])"
    by (simp add: sequenced_transcript_params_def truthy_def trim_def isSpace_def)
  then show ?thesis
    by (intro source_event_id_stable) blast
qed

section \<open>Properties of the webhook authenticator\<close>

lemma of_char_int_range: "0 \<le> (of_char c :: int) \<and> (of_char c :: int) < 256"
proof -
  have "(of_char c :: nat) < 256" by simp
  then have "int (of_char c) < 256" by linarith
  moreover have "(of_char c :: int) = int (of_char c)"
    by (simp add: of_char_def) 
  ultimately show ?thesis by simp
qed

lemma of_char_int_inj: "(of_char c :: int) = of_char d \<Longrightarrow> c = d"
  by (metis char_of_char)

lemma utf8_char_append_inj:
  assumes "utf8_char c @ xs = utf8_char d @ ys"
  shows "c = d \<and> xs = ys"
proof -
  let ?n = "of_char c :: int" and ?m = "of_char d :: int"
  have r: "0 \<le> ?n" "?n < 256" "0 \<le> ?m" "?m < 256"
    using of_char_int_range by auto
  have "?n = ?m \<and> xs = ys"
  proof (cases "?n < 128"; cases "?m < 128")
    assume "?n < 128" "?m < 128"
    with assms show ?thesis by (simp add: utf8_char_def Let_def)
  next
    assume a: "?n < 128" "\<not> ?m < 128"
    with assms have "?n = 192 + ?m div 64" by (simp add: utf8_char_def Let_def)
    with a r show ?thesis by linarith
  next
    assume a: "\<not> ?n < 128" "?m < 128"
    with assms have "192 + ?n div 64 = ?m" by (simp add: utf8_char_def Let_def)
    with a r show ?thesis by linarith
  next
    assume a: "\<not> ?n < 128" "\<not> ?m < 128"
    with assms have "?n div 64 = ?m div 64" "?n mod 64 = ?m mod 64" "xs = ys"
      by (simp_all add: utf8_char_def Let_def)
    then show ?thesis
      by (metis mult_div_mod_eq)
  qed
  then show ?thesis
    using of_char_int_inj by blast
qed

lemma utf8_char_not_Nil: "utf8_char c \<noteq> []"
  by (simp add: utf8_char_def Let_def)

lemma utf8_inj: "utf8 a = utf8 b \<Longrightarrow> a = b"
proof (induction a arbitrary: b)
  case Nil
  then show ?case
    by (cases b) (auto simp: utf8_def utf8_char_not_Nil)
next
  case (Cons c cs)
  show ?case
  proof (cases b)
    case Nil
    with Cons.prems show ?thesis
      by (auto simp: utf8_def utf8_char_not_Nil)
  next
    case b: (Cons d ds)
    with Cons.prems have "utf8_char c @ utf8 cs = utf8_char d @ utf8 ds"
      by (simp add: utf8_def)
    then have "c = d" "utf8 cs = utf8 ds"
      using utf8_char_append_inj by blast+
    with Cons.IH b show ?thesis by simp
  qed
qed

lemma safeEqual_iff: "safeEqual a b = Inr (a = b)"
  using utf8_inj [of a b]
  by (auto simp: safeEqual_def timingSafeEqual_def Let_def)

lemma foldl_payload:
  "foldl (\<lambda>acc key. acc @ key @ f key) url keys = url @ concat (map (\<lambda>key. key @ f key) keys)"
  by (induction keys arbitrary: url) auto

lemma computeTwilioSignature_payload:
  "computeTwilioSignature js authToken url params
     = hmac_sha1_base64 js authToken (signed_payload url params)"
  by (simp add: computeTwilioSignature_def signed_payload_def foldl_payload)

lemma some_candidate_total:
  "(\<And>c. test c = Inr (P c)) \<Longrightarrow> some_candidate test cs = Inr (\<exists>c \<in> set cs. P c)"
  by (induction cs) auto

lemma sorted_keys: "sorted (sort (object_keys params)) \<and> set (sort (object_keys params)) = fst ` set params
    \<and> distinct (sort (object_keys params))"
  by (simp add: object_keys_def)

text \<open>
  Claim C7. The signature check never raises: it returns \<open>true\<close> exactly when the provided
  signature equals, for at least one candidate URL, the base64 HMAC (keyed by the shared
  secret) of the candidate followed by every body parameter's key and value, the keys taken
  once each in lexicographic order; otherwise it returns \<open>false\<close>.
\<close>

theorem signature_valid_iff:
  "isValidTwilioSignature js authToken signature urlCandidates bodyParams
     = Inr (\<exists>url \<in> set urlCandidates.
              hmac_sha1_base64 js authToken
                (url @ concat (map (\<lambda>key. key @ param_value bodyParams key)
                                (sort (object_keys bodyParams)))) = signature)
   \<and> sorted (sort (object_keys bodyParams))
   \<and> distinct (sort (object_keys bodyParams))
   \<and> set (sort (object_keys bodyParams)) = fst ` set bodyParams"
proof -
  have "isValidTwilioSignature js authToken signature urlCandidates bodyParams
     = Inr (\<exists>url \<in> set urlCandidates.
              hmac_sha1_base64 js authToken (signed_payload url bodyParams) = signature)"
    unfolding isValidTwilioSignature_def
    by (rule some_candidate_total) (simp add: safeEqual_iff computeTwilioSignature_payload)
  with sorted_keys [of bodyParams] show ?thesis
    unfolding signed_payload_def by blast
qed


text \<open>
  Claim C7 with two candidate URLs, the second one rewritten for a proxy: the signature
  made over the second candidate is accepted, a signature over another URL is refused.
\<close>

theorem signature_valid_iff_witness:
  "isValidTwilioSignature sample_builtins ''secret''
      ''secret/https://hotline.example/hook?slug=case-7CallSidCA1CallStatusringing''
      [''http://10.0.0.5:3000/hook?slug=case-7'', ''https://hotline.example/hook?slug=case-7'']
      [(''CallStatus'', ''ringing''), (''CallSid'', ''CA1'')]
     = Inr True
   \<and> isValidTwilioSignature sample_builtins ''secret''
      ''secret/https://evil.example/hook?slug=case-7CallSidCA1CallStatusringing''
      [''http://10.0.0.5:3000/hook?slug=case-7'', ''https://hotline.example/hook?slug=case-7'']
      [(''CallStatus'', ''ringing''), (''CallSid'', ''CA1'')]
     = Inr False"
proof -
  have keys: "sort (object_keys [(''CallStatus'', ''ringing''), (''CallSid'', ''CA1'')])
      = [''CallSid'', ''CallStatus'']"
    by (simp add: object_keys_def less_eq_char_def)
  show ?thesis
    using signature_valid_iff [of sample_builtins "''secret''"
        "''secret/https://hotline.example/hook?slug=case-7CallSidCA1CallStatusringing''"
        "[''http://10.0.0.5:3000/hook?slug=case-7'', ''https://hotline.example/hook?slug=case-7'']"
        "[(''CallStatus'', ''ringing''), (''CallSid'', ''CA1'')]"]
      signature_valid_iff [of sample_builtins "''secret''"
        "''secret/https://evil.example/hook?slug=case-7CallSidCA1CallStatusringing''"
        "[''http://10.0.0.5:3000/hook?slug=case-7'', ''https://hotline.example/hook?slug=case-7'']"
        "[(''CallStatus'', ''ringing''), (''CallSid'', ''CA1'')]"]
    by (simp add: keys param_value_def sample_builtins_def)
qed

section \<open>Properties of the advice scheduler\<close>

text \<open>
  Claim C5. A trigger that finds the call's state running sets \<open>pending\<close> and returns
  without issuing any call; a trigger that is not forced and finds the state idle less than
  900 ms after \<open>lastRunAt\<close> returns without issuing any call and leaves the store as it
  was.
\<close>

theorem trigger_coalesces_and_debounces:
  "(store callSid = Some state \<and> running state
      \<longrightarrow> runAdviceForCall lt store now passes callSid force
            = (Returned, store(callSid \<mapsto> state\<lparr>pending := True\<rparr>), []))
   \<and> (store callSid = Some state \<and> \<not> running state \<and> \<not> force
        \<and> now - lastRunAt state < 900
      \<longrightarrow> runAdviceForCall lt store now passes callSid force = (Returned, store, []))"
proof -
  have "store(callSid \<mapsto> state) = store" if "store callSid = Some state"
    using that by (rule map_upd_triv)
  then show ?thesis
    by (simp add: runAdviceForCall_def ADVICE_MIN_INTERVAL_MS_def)
qed

theorem trigger_coalesces_and_debounces_witness:
  "runAdviceForCall sample_types
      [''CA1'' \<mapsto> \<lparr>running = True, pending = False, lastRunAt = 4000\<rparr>] 4100 [sample_pass]
      ''CA1'' True
     = (Returned, [''CA1'' \<mapsto> \<lparr>running = True, pending = True, lastRunAt = 4000\<rparr>], [])
   \<and> runAdviceForCall sample_types
      [''CA1'' \<mapsto> \<lparr>running = False, pending = False, lastRunAt = 4000\<rparr>] 4899 [sample_pass]
      ''CA1'' False
     = (Returned, [''CA1'' \<mapsto> \<lparr>running = False, pending = False, lastRunAt = 4000\<rparr>], [])"
  using trigger_coalesces_and_debounces
      [of "[''CA1'' \<mapsto> \<lparr>running = True, pending = False, lastRunAt = 4000\<rparr>]" "''CA1''"
          "\<lparr>running = True, pending = False, lastRunAt = 4000\<rparr>" sample_types 4100
          "[sample_pass]" True]
    trigger_coalesces_and_debounces
      [of "[''CA1'' \<mapsto> \<lparr>running = False, pending = False, lastRunAt = 4000\<rparr>]" "''CA1''"
          "\<lparr>running = False, pending = False, lastRunAt = 4000\<rparr>" sample_types 4899
          "[sample_pass]" False]
  by simp

lemma advice_loop_throws_only_reads:
  "advice_loop lt callSid force current passes = (Threw msg, final, effects) \<Longrightarrow>
     \<exists>p \<in> set passes. p_summary p = Rejected msg \<or> p_transcript p = Rejected msg"
proof (induction passes arbitrary: force current effects)
  case Nil
  then show ?case by simp
next
  case (Cons p ps)
  show ?case
  proof (cases "p_summary p = Rejected msg \<or> p_transcript p = Rejected msg")
    case True
    then show ?thesis by auto
  next
    case False
    with Cons.prems obtain current' later where
      "advice_loop lt callSid False current' ps = (Threw msg, final, later)"
      by (auto simp: Let_def split: settled.splits option.splits if_splits prod.splits)
    with Cons.IH show ?thesis by auto
  qed
qed

lemma advice_loop_finishes:
  "\<exists>p \<in> set passes. \<not> p_retriggered p \<Longrightarrow>
     fst (advice_loop lt callSid force current passes) \<noteq> Unfinished"
proof (induction passes arbitrary: force current)
  case Nil
  then show ?case by simp
next
  case (Cons p ps)
  show ?case
  proof (cases "p_retriggered p")
    case False
    then show ?thesis
      by (auto simp: Let_def split: settled.splits option.splits prod.splits)
  next
    case True
    with Cons.prems have "\<exists>q \<in> set ps. \<not> p_retriggered q" by auto
    then have "advice_loop lt callSid False c ps \<noteq> (Unfinished, a, b)" for c a b
      using Cons.IH [of False c] by auto
    then show ?thesis
      by (auto simp: Let_def split: settled.splits option.splits prod.splits)
  qed
qed

lemma generation_effects_default:
  "is_rejected (p_advice p) \<or> is_rejected (p_stored p) \<Longrightarrow>
     SetAdvice callSid (createDefaultAdvice lt) (Some delay_notice)
       \<in> set (generation_effects lt callSid p transcript)"
  by (auto simp: generation_effects_def is_rejected_def split: settled.splits)

lemma generates_reads:
  "generates force lastRun p \<Longrightarrow> p_summary p \<noteq> Rejected msg \<and> p_transcript p \<noteq> Rejected msg"
  by (auto simp: generates_def split: settled.splits option.splits)

lemma reaches_reads:
  "reaches force lastRun before \<Longrightarrow> q \<in> set before \<Longrightarrow>
     p_summary q \<noteq> Rejected msg \<and> p_transcript q \<noteq> Rejected msg"
proof (induction before arbitrary: force lastRun)
  case Nil
  then show ?case by simp
next
  case (Cons b bs)
  then show ?case
    using generates_reads [of force lastRun b msg] by auto
qed

lemma advice_loop_generates:
  assumes "generates force (lastRunAt current) p"
  shows "\<exists>transcript.
     snd (snd (advice_loop lt callSid force current (p # ps)))
       = generation_effects lt callSid p transcript
         @ (if p_retriggered p
            then snd (snd (advice_loop lt callSid False
                   (current\<lparr>pending := True, lastRunAt := p_clock_done p\<rparr>) ps))
            else [])"
  using assms
  by (auto simp: generates_def Let_def split: settled.splits option.splits prod.splits)

lemma advice_loop_reaches:
  assumes "reaches force (lastRunAt current) before"
    and "generates (force_after force before) (lastRun_after (lastRunAt current) before) p"
    and "is_rejected (p_advice p)"
  shows "SetAdvice callSid (createDefaultAdvice lt) (Some delay_notice)
           \<in> set (snd (snd (advice_loop lt callSid force current (before @ p # after))))"
  using assms
proof (induction before arbitrary: force current)
  case Nil
  then have g: "generates force (lastRunAt current) p"
    by (simp add: force_after_def lastRun_after_def)
  from advice_loop_generates [OF g, of lt callSid after] obtain transcript where
    "snd (snd (advice_loop lt callSid force current (p # after)))
       = generation_effects lt callSid p transcript
         @ (if p_retriggered p
            then snd (snd (advice_loop lt callSid False
                   (current\<lparr>pending := True, lastRunAt := p_clock_done p\<rparr>) after))
            else [])"
    by blast
  with generation_effects_default [of p callSid lt transcript] Nil.prems(3)
  show ?case by simp
next
  case (Cons b bs)
  let ?current = "current\<lparr>pending := True, lastRunAt := p_clock_done b\<rparr>"
  from Cons.prems(1) have b: "generates force (lastRunAt current) b" "p_retriggered b"
      "reaches False (lastRunAt ?current) bs"
    by simp_all
  from Cons.prems(2) have "generates (force_after False bs) (lastRun_after (lastRunAt ?current) bs) p"
    by (auto simp: force_after_def lastRun_after_def)
  with Cons.IH [of False ?current] b(3) Cons.prems(3)
  have ih: "SetAdvice callSid (createDefaultAdvice lt) (Some delay_notice)
           \<in> set (snd (snd (advice_loop lt callSid False ?current (bs @ p # after))))"
    by blast
  from advice_loop_generates [OF b(1), of lt callSid "bs @ p # after"] b(2)
  obtain transcript where
    "snd (snd (advice_loop lt callSid force current (b # bs @ p # after)))
       = generation_effects lt callSid b transcript
         @ snd (snd (advice_loop lt callSid False ?current (bs @ p # after)))"
    by auto
  with ih show ?case by simp
qed

text \<open>
  Claim C6. Take a run that is admitted (the state is not running, and the trigger is forced
  or at least 900 ms after \<open>lastRunAt\<close>) and a pass of its loop that the loop reaches and
  that gets as far as the generation, and let that generation be rejected (a timeout is a
  rejection). Then the run issues
  \<open>setLiveCallAdvice(callSid, createDefaultAdvice(), notice)\<close> with the delay notice; if
  the run throws at all, the message is that of a storage read
  (\<open>getLiveCallSummary\<close> or \<open>getTranscriptChunks\<close>) rejected in a later pass, never the
  generation's; and if the storage reads of the later passes resolve and some pass from
  this one on sees no further trigger, the run returns normally.
\<close>

theorem generation_failure_contained:
  assumes admitted: "store callSid = None \<or> \<not> running (the (store callSid))"
      "force \<or> 900 \<le> now - (case store callSid of None \<Rightarrow> 0 | Some s \<Rightarrow> lastRunAt s)"
    and reached:
      "reaches force (case store callSid of None \<Rightarrow> 0 | Some s \<Rightarrow> lastRunAt s) before"
      "generates (force_after force before)
         (lastRun_after (case store callSid of None \<Rightarrow> 0 | Some s \<Rightarrow> lastRunAt s) before) p"
    and failure: "is_rejected (p_advice p)"
    and run: "runAdviceForCall lt store now (before @ p # after) callSid force
                = (ending, store', effects)"
  shows "SetAdvice callSid (createDefaultAdvice lt) (Some delay_notice) \<in> set effects
    \<and> (\<forall>msg. ending = Threw msg \<longrightarrow>
           (\<exists>q \<in> set after. p_summary q = Rejected msg \<or> p_transcript q = Rejected msg))
    \<and> ((\<forall>q \<in> set after. \<not> is_rejected (p_summary q) \<and> \<not> is_rejected (p_transcript q))
           \<and> (\<exists>q \<in> set (p # after). \<not> p_retriggered q) \<longrightarrow> ending = Returned)"
proof -
  let ?current = "case store callSid of Some state \<Rightarrow> state
        | None \<Rightarrow> \<lparr>running = False, pending = False, lastRunAt = 0\<rparr>"
  let ?entered = "?current\<lparr>running := True\<rparr>"
  have lr: "lastRunAt ?entered = (case store callSid of None \<Rightarrow> 0 | Some s \<Rightarrow> lastRunAt s)"
    by (simp split: option.splits)
  from admitted have nr: "\<not> running ?current"
    and nd: "\<not> (\<not> force \<and> now - lastRunAt ?current < ADVICE_MIN_INTERVAL_MS)"
    by (auto simp: ADVICE_MIN_INTERVAL_MS_def split: option.splits)
  have loop: "advice_loop lt callSid force ?entered (before @ p # after)
       = (ending, snd (advice_loop lt callSid force ?entered (before @ p # after)))"
    and fx: "effects = snd (snd (advice_loop lt callSid force ?entered (before @ p # after)))"
    using run nr nd unfolding runAdviceForCall_def Let_def
    by (auto split: prod.splits)
  from advice_loop_reaches [of force ?entered before p callSid lt after] reached failure
  have stored: "SetAdvice callSid (createDefaultAdvice lt) (Some delay_notice) \<in> set effects"
    unfolding fx lr by blast
  have thrown: "\<exists>q \<in> set after. p_summary q = Rejected m \<or> p_transcript q = Rejected m"
    if "ending = Threw m" for m
  proof -
    from that loop obtain final later where
      "advice_loop lt callSid force ?entered (before @ p # after) = (Threw m, final, later)"
      by (metis prod.collapse)
    from advice_loop_throws_only_reads [OF this] obtain q where
      q: "q \<in> set (before @ p # after)" "p_summary q = Rejected m \<or> p_transcript q = Rejected m"
      by blast
    from q(2) reaches_reads [OF reached(1), of q m] have "q \<notin> set before"
      by blast
    moreover from q(2) generates_reads [OF reached(2), of m] have "q \<noteq> p"
      by blast
    ultimately show ?thesis
      using q by auto
  qed
  have normal: "ending = Returned"
    if a: "(\<forall>q \<in> set after. \<not> is_rejected (p_summary q) \<and> \<not> is_rejected (p_transcript q))
           \<and> (\<exists>q \<in> set (p # after). \<not> p_retriggered q)"
  proof -
    from a have "\<exists>q \<in> set (before @ p # after). \<not> p_retriggered q"
      by auto
    from advice_loop_finishes [OF this, of lt callSid force ?entered] loop
    have "ending \<noteq> Unfinished"
      by (metis fst_conv)
    moreover have "ending \<noteq> Threw m" for m
    proof
      assume "ending = Threw m"
      with thrown obtain q where q: "q \<in> set after"
          "p_summary q = Rejected m \<or> p_transcript q = Rejected m"
        by blast
      with a have "\<not> is_rejected (p_summary q)" "\<not> is_rejected (p_transcript q)"
        by blast+
      with q(2) show False
        by (auto simp: is_rejected_def)
    qed
    ultimately show ?thesis
      by (cases ending) auto
  qed
  from stored thrown normal show ?thesis
    by blast
qed

text \<open>
  Claim C6 at a first run for a call, forced by a final transcript: the first pass succeeds
  while another trigger arrives, the generation of the second pass times out, the default
  advice is stored with the notice and the run returns.
\<close>

theorem generation_failure_contained_witness:
  "SetAdvice ''CA1'' (createDefaultAdvice sample_types) (Some delay_notice)
     \<in> set (snd (snd (runAdviceForCall sample_types Map.empty 2900
                        [sample_first_pass, sample_pass] ''CA1'' True)))
   \<and> fst (runAdviceForCall sample_types Map.empty 2900 [sample_first_pass, sample_pass]
            ''CA1'' True) = Returned"
proof -
  obtain ending store' effects where run:
    "runAdviceForCall sample_types Map.empty 2900 ([sample_first_pass] @ sample_pass # [])
       ''CA1'' True = (ending, store', effects)"
    by (metis prod_cases3)
  have h1: "(Map.empty :: advice_store) ''CA1'' = None
      \<or> \<not> running (the ((Map.empty :: advice_store) ''CA1''))"
    and h2: "True \<or> 900 \<le> 2900 - (case (Map.empty :: advice_store) ''CA1'' of
                                     None \<Rightarrow> 0 | Some s \<Rightarrow> lastRunAt s)"
    and h3: "reaches True (case (Map.empty :: advice_store) ''CA1'' of
                             None \<Rightarrow> 0 | Some s \<Rightarrow> lastRunAt s) [sample_first_pass]"
    and h4: "generates (force_after True [sample_first_pass])
               (lastRun_after (case (Map.empty :: advice_store) ''CA1'' of
                                 None \<Rightarrow> 0 | Some s \<Rightarrow> lastRunAt s) [sample_first_pass])
               sample_pass"
    and h5: "is_rejected (p_advice sample_pass)"
    by (simp_all add: sample_pass_def sample_first_pass_def is_rejected_def generates_def
        force_after_def lastRun_after_def ADVICE_MIN_INTERVAL_MS_def)
  from generation_failure_contained [OF h1 h2 h3 h4 h5 run]
  have "SetAdvice ''CA1'' (createDefaultAdvice sample_types) (Some delay_notice) \<in> set effects"
    and "ending = Returned"
    by (simp_all add: sample_pass_def)
  with run show ?thesis by simp
qed

section \<open>Properties of the webhook handler\<close>

lemma trigger_advice_responses:
  assumes "trigger_advice lt w event callSid transcript issued = (Responded r, store', effects)"
  shows "r = ok_response
       \<or> (\<exists>msg force. r = error_response 500 (failure_message msg)
             \<and> fst (runAdviceForCall lt (w_store w) (w_clock_trigger w) (w_passes w)
                       callSid force) = Threw msg)"
proof -
  let ?force = "tr_isFinal transcript \<or> isTerminalStatus lt (normalizeSessionStatus lt
                   (case ev_status event of None \<Rightarrow> [] | Some s \<Rightarrow> s))"
  obtain ending store effects' where run:
    "runAdviceForCall lt (w_store w) (w_clock_trigger w) (w_passes w) callSid ?force
       = (ending, store, effects')"
    by (metis prod_cases3)
  show ?thesis
  proof (cases ending)
    case Returned
    with assms run show ?thesis
      by (simp add: trigger_advice_def Let_def)
  next
    case (Threw msg)
    with assms run have "r = error_response 500 (failure_message msg)"
      by (simp add: trigger_advice_def Let_def respond_failed_def)
    moreover from run Threw
    have "fst (runAdviceForCall lt (w_store w) (w_clock_trigger w) (w_passes w) callSid ?force)
            = Threw msg"
      by simp
    ultimately show ?thesis by blast
  next
    case Unfinished
    with assms run show ?thesis
      by (simp add: trigger_advice_def Let_def)
  qed
qed

lemma record_event_responses:
  assumes "record_event lt w event callSid slug = (Responded r, store', effects)"
  shows "r = ok_response
       \<or> (\<exists>msg. r = error_response 500 (failure_message msg)
             \<and> (w_upsert w = Rejected msg \<or> w_setStatus w = Rejected msg
                \<or> w_append w = Rejected msg
                \<or> (\<exists>force. fst (runAdviceForCall lt (w_store w) (w_clock_trigger w)
                                    (w_passes w) callSid force) = Threw msg)))"
proof (cases "w_upsert w")
  case (Rejected msg)
  with assms show ?thesis
    by (auto simp: record_event_def respond_failed_def)
next
  case up: (Resolved u)
  show ?thesis
  proof (cases "if truthy (ev_status event) then w_setStatus w else Resolved ()")
    case (Rejected msg)
    then have "w_setStatus w = Rejected msg"
      by (auto split: if_splits)
    with assms up Rejected show ?thesis
      by (auto simp: record_event_def respond_failed_def Let_def)
  next
    case st: (Resolved v)
    show ?thesis
    proof (cases "ev_transcript event")
      case None
      with assms up st show ?thesis
        by (simp add: record_event_def Let_def)
    next
      case tr: (Some transcript)
      show ?thesis
      proof (cases "w_append w")
        case (Rejected msg)
        with assms up st tr show ?thesis
          by (auto simp: record_event_def respond_failed_def Let_def)
      next
        case (Resolved a)
        with assms up st tr obtain issued where
          "trigger_advice lt w event callSid transcript issued = (Responded r, store', effects)"
          by (auto simp: record_event_def Let_def)
        from trigger_advice_responses [OF this] show ?thesis by blast
      qed
    qed
  qed
qed

lemma process_event_responses:
  assumes "process_event lt w event callSid = (Responded r, store', effects)"
  shows "r = ok_response
       \<or> (r = error_response 400 ''Missing case slug for call session.''
           \<and> \<not> isValidSlug (ev_slug event)
           \<and> (\<exists>existing. w_existing w = Resolved existing
                 \<and> \<not> truthy (case existing of None \<Rightarrow> None | Some s \<Rightarrow> sum_slug s)))
       \<or> (\<exists>msg. r = error_response 500 (failure_message msg)
             \<and> (w_existing w = Rejected msg \<or> w_upsert w = Rejected msg
                \<or> w_setStatus w = Rejected msg \<or> w_append w = Rejected msg
                \<or> (\<exists>force. fst (runAdviceForCall lt (w_store w) (w_clock_trigger w)
                                    (w_passes w) callSid force) = Threw msg)))"
proof (cases "resolve_slug w event")
  case (Rejected msg)
  then have "w_existing w = Rejected msg"
    by (auto simp: resolve_slug_def split: if_splits settled.splits)
  with assms Rejected show ?thesis
    by (auto simp: process_event_def respond_failed_def)
next
  case (Resolved slug)
  show ?thesis
  proof (cases "truthy slug")
    case False
    with Resolved have "\<not> isValidSlug (ev_slug event)
        \<and> (\<exists>existing. w_existing w = Resolved existing
              \<and> \<not> truthy (case existing of None \<Rightarrow> None | Some s \<Rightarrow> sum_slug s))"
      by (auto simp: resolve_slug_def isValidSlug_def split: if_splits settled.splits)
    with assms Resolved False show ?thesis
      by (simp add: process_event_def)
  next
    case True
    with assms Resolved have
      "record_event lt w event callSid (the slug) = (Responded r, store', effects)"
      by (simp add: process_event_def)
    from record_event_responses [OF this] show ?thesis by blast
  qed
qed

lemma signature_gate_responses:
  assumes "signature_gate js w rq = Inr (Some r)"
  shows "(r = error_response 500 ''Twilio server configuration is missing.''
            \<and> w_twilioConfig w = None)
       \<or> (r = error_response 401 ''Missing Twilio signature.'' \<and> \<not> truthy (rq_signature rq))
       \<or> (r = error_response 401 ''Invalid Twilio signature.''
           \<and> (\<exists>config. w_twilioConfig w = Some config
                 \<and> isValidTwilioSignature js (cfg_authToken config) (the (rq_signature rq))
                      (rq_urlCandidates rq) (rq_bodyParams rq) = Inr False))"
  using assms
  by (auto simp: signature_gate_def split: option.splits if_splits sum.splits)

lemma post_without_call:
  assumes "w_skipValidation w
        \<or> (\<exists>config. w_twilioConfig w = Some config \<and> truthy (rq_signature rq)
              \<and> isValidTwilioSignature js (cfg_authToken config) (the (rq_signature rq))
                   (rq_urlCandidates rq) (rq_bodyParams rq) = Inr True)"
    and "\<not> truthy (ev_callSid
              (parseTwilioWebhookEvent js (w_clock_parse w) (rq_bodyParams rq) (rq_slug rq)))"
  shows "POST js lt w rq = (Responded ok_response, w_store w, [])"
proof (cases "w_skipValidation w")
  case True
  with assms(2) show ?thesis
    by (simp add: POST_def Let_def)
next
  case False
  with assms(1) obtain config where "w_twilioConfig w = Some config" "truthy (rq_signature rq)"
      "isValidTwilioSignature js (cfg_authToken config) (the (rq_signature rq))
                   (rq_urlCandidates rq) (rq_bodyParams rq) = Inr True"
    by blast
  with False assms(2) show ?thesis
    by (simp add: POST_def Let_def signature_gate_def)
qed

text \<open>
  Claim C3, amended. Whenever the handler responds, the response is \<open>200\<close> with
  \<open>ok: true\<close>, or it is one of: \<open>500\<close> for missing server configuration; \<open>401\<close> for a
  missing signature, an invalid signature or an account mismatch; \<open>400\<close> for a call whose
  case slug is neither valid in the event nor known from the stored session; \<open>500\<close> with
  the error's message when a storage call is rejected or the advice run throws. An event
  without a call id that passed the signature check (or arrived with the check switched
  off) is always answered \<open>200\<close>.
\<close>

theorem post_responses:
  "(POST js lt w rq = (Responded r, store', effects) \<longrightarrow>
      r = ok_response
    \<or> (r = error_response 500 ''Twilio server configuration is missing.''
        \<and> w_twilioConfig w = None \<and> \<not> w_skipValidation w)
    \<or> (r = error_response 401 ''Missing Twilio signature.''
        \<and> \<not> w_skipValidation w \<and> \<not> truthy (rq_signature rq))
    \<or> (r = error_response 401 ''Invalid Twilio signature.''
        \<and> \<not> w_skipValidation w
        \<and> (\<exists>config. w_twilioConfig w = Some config
              \<and> isValidTwilioSignature js (cfg_authToken config) (the (rq_signature rq))
                   (rq_urlCandidates rq) (rq_bodyParams rq) = Inr False))
    \<or> (r = error_response 401 ''Twilio account mismatch.''
        \<and> account_mismatch (w_twilioConfig w)
              (parseTwilioWebhookEvent js (w_clock_parse w) (rq_bodyParams rq) (rq_slug rq)))
    \<or> (r = error_response 400 ''Missing case slug for call session.''
        \<and> \<not> isValidSlug (ev_slug
              (parseTwilioWebhookEvent js (w_clock_parse w) (rq_bodyParams rq) (rq_slug rq)))
        \<and> (\<exists>existing. w_existing w = Resolved existing
              \<and> \<not> truthy (case existing of None \<Rightarrow> None | Some s \<Rightarrow> sum_slug s)))
    \<or> (\<exists>msg. r = error_response 500 (failure_message msg)
          \<and> (w_existing w = Rejected msg \<or> w_upsert w = Rejected msg
             \<or> w_setStatus w = Rejected msg \<or> w_append w = Rejected msg
             \<or> (\<exists>callSid force.
                    fst (runAdviceForCall lt (w_store w) (w_clock_trigger w) (w_passes w)
                           callSid force) = Threw msg))))
   \<and> ((w_skipValidation w
         \<or> (\<exists>config. w_twilioConfig w = Some config \<and> truthy (rq_signature rq)
               \<and> isValidTwilioSignature js (cfg_authToken config) (the (rq_signature rq))
                    (rq_urlCandidates rq) (rq_bodyParams rq) = Inr True))
        \<and> \<not> truthy (ev_callSid
              (parseTwilioWebhookEvent js (w_clock_parse w) (rq_bodyParams rq) (rq_slug rq)))
      \<longrightarrow> POST js lt w rq = (Responded ok_response, w_store w, []))"
proof (intro conjI impI)
  let ?event = "parseTwilioWebhookEvent js (w_clock_parse w) (rq_bodyParams rq) (rq_slug rq)"
  assume post: "POST js lt w rq = (Responded r, store', effects)"
  let ?goal = "r = ok_response
    \<or> (r = error_response 500 ''Twilio server configuration is missing.''
        \<and> w_twilioConfig w = None \<and> \<not> w_skipValidation w)
    \<or> (r = error_response 401 ''Missing Twilio signature.''
        \<and> \<not> w_skipValidation w \<and> \<not> truthy (rq_signature rq))
    \<or> (r = error_response 401 ''Invalid Twilio signature.''
        \<and> \<not> w_skipValidation w
        \<and> (\<exists>config. w_twilioConfig w = Some config
              \<and> isValidTwilioSignature js (cfg_authToken config) (the (rq_signature rq))
                   (rq_urlCandidates rq) (rq_bodyParams rq) = Inr False))
    \<or> (r = error_response 401 ''Twilio account mismatch.''
        \<and> account_mismatch (w_twilioConfig w) ?event)
    \<or> (r = error_response 400 ''Missing case slug for call session.''
        \<and> \<not> isValidSlug (ev_slug ?event)
        \<and> (\<exists>existing. w_existing w = Resolved existing
              \<and> \<not> truthy (case existing of None \<Rightarrow> None | Some s \<Rightarrow> sum_slug s)))
    \<or> (\<exists>msg. r = error_response 500 (failure_message msg)
          \<and> (w_existing w = Rejected msg \<or> w_upsert w = Rejected msg
             \<or> w_setStatus w = Rejected msg \<or> w_append w = Rejected msg
             \<or> (\<exists>callSid force.
                    fst (runAdviceForCall lt (w_store w) (w_clock_trigger w) (w_passes w)
                           callSid force) = Threw msg)))"
  show ?goal
  proof (cases "w_twilioConfig w = None \<and> \<not> w_skipValidation w")
    case True
    with post show ?thesis by (simp add: POST_def)
  next
    case configured: False
    let ?gate = "if \<not> w_skipValidation w then signature_gate js w rq else Inr None"
    show ?thesis
    proof (cases ?gate)
      case (Inl e)
      with post configured show ?thesis by (simp add: POST_def)
    next
      case (Inr verdict)
      show ?thesis
      proof (cases verdict)
        case (Some rejected)
        with Inr have g: "signature_gate js w rq = Inr (Some rejected)" "\<not> w_skipValidation w"
          by (auto split: if_splits)
        from post configured Inr Some have "r = rejected"
          by (simp add: POST_def)
        with signature_gate_responses [OF g(1)] g(2) configured show ?thesis
          by blast
      next
        case None
        with post configured Inr have rest:
          "(if \<not> truthy (ev_callSid ?event) then (Responded ok_response, w_store w, [])
            else if account_mismatch (w_twilioConfig w) ?event
            then (Responded (error_response 401 ''Twilio account mismatch.''), w_store w, [])
            else process_event lt w ?event (the (ev_callSid ?event)))
           = (Responded r, store', effects)"
          by (simp add: POST_def Let_def)
        show ?thesis
        proof (cases "\<not> truthy (ev_callSid ?event)")
          case True
          with rest show ?thesis by simp
        next
          case hasCall: False
          show ?thesis
          proof (cases "account_mismatch (w_twilioConfig w) ?event")
            case True
            with rest hasCall show ?thesis by simp
          next
            case False
            with rest hasCall have
              "process_event lt w ?event (the (ev_callSid ?event)) = (Responded r, store', effects)"
              by simp
            from process_event_responses [OF this] show ?thesis by blast
          qed
        qed
      qed
    qed
  qed
next
  assume "(w_skipValidation w
         \<or> (\<exists>config. w_twilioConfig w = Some config \<and> truthy (rq_signature rq)
               \<and> isValidTwilioSignature js (cfg_authToken config) (the (rq_signature rq))
                    (rq_urlCandidates rq) (rq_bodyParams rq) = Inr True))
        \<and> \<not> truthy (ev_callSid
              (parseTwilioWebhookEvent js (w_clock_parse w) (rq_bodyParams rq) (rq_slug rq)))"
  then show "POST js lt w rq = (Responded ok_response, w_store w, [])"
    using post_without_call by blast
qed

text \<open>
  Claim C3 at an authenticated event that names no call: it is acknowledged with
  \<open>200\<close> and nothing is written.
\<close>

theorem post_responses_witness:
  "POST sample_builtins sample_types sample_world
      (status_request\<lparr>rq_bodyParams := [(''CallStatus'', ''completed'')]\<rparr>)
     = (Responded ok_response, Map.empty, [])"
proof -
  let ?rq = "status_request\<lparr>rq_bodyParams := [(''CallStatus'', ''completed'')]\<rparr>"
  have "\<not> truthy (ev_callSid (parseTwilioWebhookEvent sample_builtins
            (w_clock_parse sample_world) (rq_bodyParams ?rq) (rq_slug ?rq)))"
    by (simp add: parseTwilioWebhookEvent_def status_request_def trim_def isSpace_def
        truthy_def or_else_def parseTranscriptionData_def noTranscriptionData_def Let_def)
  moreover have "w_skipValidation sample_world" "w_store sample_world = Map.empty"
    by (simp_all add: sample_world_def)
  ultimately have answered: "POST sample_builtins sample_types sample_world ?rq
      = (Responded ok_response, Map.empty, [])"
    using post_responses [of sample_builtins sample_types sample_world ?rq] by simp
  with post_responses [of sample_builtins sample_types sample_world ?rq ok_response
      Map.empty "[]"]
  show ?thesis by simp
qed

lemma status_event:
  "parseTwilioWebhookEvent js now (rq_bodyParams status_request) slug
     = \<lparr>ev_callSid = Some ''CA1'', ev_accountSid = Some ''AC1'',
        ev_slug = (case slug of Some s \<Rightarrow> Some s | None \<Rightarrow> None),
        ev_status = Some ''in-progress'', ev_transcript = None\<rparr>"
  by (simp add: parseTwilioWebhookEvent_def status_request_def trim_def isSpace_def
      truthy_def or_else_def parseTranscriptionData_def noTranscriptionData_def Let_def
      split: option.splits)

text \<open>
  Claim C3 as stated fails. With the signature check passed over, a status event of a known
  account is answered \<open>500\<close> with \<open>ok: false\<close> when the session upsert is rejected by the
  storage, and \<open>400\<close> with \<open>ok: false\<close> when it carries no slug and no session is stored
  for the call.
\<close>

theorem post_responses_counterexample:
  "fst (POST sample_builtins sample_types
          (sample_world\<lparr>w_upsert := Rejected ''connection refused''\<rparr>) status_request)
     = Responded \<lparr>rs_status = 500, rs_ok = False, rs_error = Some ''connection refused''\<rparr>
   \<and> fst (POST sample_builtins sample_types sample_world (status_request\<lparr>rq_slug := None\<rparr>))
     = Responded \<lparr>rs_status = 400, rs_ok = False,
          rs_error = Some ''Missing case slug for call session.''\<rparr>"
proof -
  have slug: "isValidSlug (Some ''case-7'')" "\<not> isValidSlug None"
    by (simp_all add: isValidSlug_def truthy_def isSlugChar_def)
  have bodies: "rq_bodyParams (status_request\<lparr>rq_slug := None\<rparr>) = rq_bodyParams status_request"
      "rq_slug (status_request\<lparr>rq_slug := None\<rparr>) = None"
      "rq_slug status_request = Some ''case-7''"
    by (simp_all add: status_request_def)
  show ?thesis
    by (simp add: POST_def Let_def sample_world_def bodies status_event truthy_def
        account_mismatch_def process_event_def resolve_slug_def slug record_event_def
        respond_failed_def error_response_def failure_message_def)
qed

end
